theory Spec2Isabelle
  imports Main "HOL-Library.Word"
begin

section \<open>The digest session layer of v1/wd_digest.c\<close>

text \<open>
  A shallow embedding of \<^verbatim>\<open>src/v1/wd_digest.c\<close>. C \<^verbatim>\<open>int\<close> is a \<open>32 word\<close>
  read as two's complement (signed comparisons are \<open>\<le>s\<close> and \<open><s\<close>),
  \<^verbatim>\<open>unsigned int\<close> a \<open>32 word\<close>, \<^verbatim>\<open>__u64\<close> a \<open>64 word\<close>, \<^verbatim>\<open>__u16\<close> a \<open>16 word\<close>
  and \<^verbatim>\<open>__u8\<close> an \<open>8 word\<close>. A data pointer is an address, a natural number with
  0 for \<^verbatim>\<open>NULL\<close>; a function pointer is modelled the same way, since the code only
  tests it against \<^verbatim>\<open>NULL\<close> or calls it. The spinlock calls are left out: every
  function is modelled as one sequential run.
\<close>

type_synonym addr = nat
type_synonym fnptr = nat

subsection \<open>Constants\<close>

definition WD_DIGEST_CTX_MSG_NUM :: "32 word" where
  "WD_DIGEST_CTX_MSG_NUM = 64"

definition WD_DIGEST_MAX_CTX :: "32 word" where
  "WD_DIGEST_MAX_CTX = 256"

definition MAX_HMAC_KEY_SIZE :: nat where
  "MAX_HMAC_KEY_SIZE = 128"

definition MAX_DIGEST_RETRY_CNT :: "64 word" where
  "MAX_DIGEST_RETRY_CNT = 20000000"

text \<open>
  The return codes and the algorithm-type tag come from \<^verbatim>\<open>wd.h\<close>, which is not among
  the sources; they are a parameter of every function that uses one.
\<close>

record wd_h =
  WD_SUCCESS :: "32 word"
  WD_EINVAL :: "32 word"
  WD_EBUSY :: "32 word"
  WD_ETIMEDOUT :: "32 word"
  WD_HW_ERR :: "32 word"
  WD_DIGEST :: "32 word"

subsection \<open>Data\<close>

text \<open>
  The structures of \<^verbatim>\<open>wd.h\<close>, \<^verbatim>\<open>wd_util.h\<close> and \<^verbatim>\<open>wd_digest.h\<close> carry the fields
  that the source file reads or writes. The mode is the enumeration that line 91
  compares with \<^verbatim>\<open>WCRYPTO_DIGEST_HMAC\<close>.
\<close>

datatype wcrypto_digest_mode = WCRYPTO_DIGEST_NORMAL | WCRYPTO_DIGEST_HMAC

record wd_mm_ops =
  ops_alloc :: fnptr
  ops_free :: fnptr
  ops_dma_map :: fnptr
  ops_dma_unmap :: fnptr
  ops_usr :: addr

record wcrypto_digest_ctx_setup =
  s_cb :: fnptr
  s_alg :: "32 word"
  s_mode :: wcrypto_digest_mode
  s_ops :: wd_mm_ops
  s_data_fmt :: "32 word"

record q_info =
  ctx_num :: "32 word"
  q_ops :: wd_mm_ops

record wd_queue =
  capa_alg :: string
  q_info :: q_info

text \<open>
  A pointer to the tag of a cookie, as stored in \<^verbatim>\<open>usr_data\<close>, is the address of the
  context that holds the cookie together with the cookie's position in the pool.
\<close>

type_synonym tag_ptr = "addr \<times> 32 word"

record wcrypto_digest_msg =
  m_alg_type :: "32 word"
  m_alg :: "32 word"
  m_mode :: wcrypto_digest_mode
  m_data_fmt :: "32 word"
  m_has_next :: bool
  m_key :: addr
  m_key_bytes :: "32 word"
  m_in :: addr
  m_in_bytes :: "32 word"
  m_out :: addr
  m_out_bytes :: "32 word"
  m_result :: "32 word"
  m_usr_data :: tag_ptr

record wcrypto_tag =
  t_ctx :: addr
  t_ctx_id :: "32 word"
  t_tag :: addr

record wcrypto_digest_tag =
  wcrypto_tag :: wcrypto_tag
  long_data_len :: "64 word"

record wcrypto_digest_cookie =
  c_tag :: wcrypto_digest_tag
  c_msg :: wcrypto_digest_msg

record wcrypto_digest_ctx =
  cookies :: "wcrypto_digest_cookie list"
  cstatus :: "8 word list"
  cidx :: "32 word"
  ctx_id :: "32 word"
  ctx_key :: addr
  key_bytes :: "32 word"
  io_bytes :: "64 word"
  ctx_q :: addr
  ctx_setup :: wcrypto_digest_ctx_setup

record wcrypto_digest_op_data =
  op_in :: addr
  op_out :: addr
  op_in_bytes :: "32 word"
  op_out_bytes :: "32 word"
  op_status :: "32 word"
  op_has_next :: bool

text \<open>
  What C leaves undefined is a value of its own: an array read outside the pool,
  a dereference of a pointer that points to no object, a call through a null
  function pointer.
\<close>

datatype fault = OutOfBounds | BadPointer | NullCall

text \<open>\<^verbatim>\<open>WD_ERR\<close> writes a diagnostic; a function that returns \<^verbatim>\<open>void\<close> has no other signal.\<close>

datatype wd_log = Silent | WD_ERR string

subsection \<open>The cookie pool\<close>

text \<open>
  \<^verbatim>\<open>__atomic_test_and_set\<close> stores the set value in the byte and returns whether the
  byte was set before; \<^verbatim>\<open>__atomic_clear\<close> stores 0.
\<close>

definition in_pool :: "8 word list \<Rightarrow> 32 word \<Rightarrow> bool" where
  "in_pool cs idx \<longleftrightarrow> 0 \<le> sint idx \<and> nat (sint idx) < length cs"

definition atomic_test_and_set :: "8 word list \<Rightarrow> 32 word \<Rightarrow> bool \<times> 8 word list" where
  "atomic_test_and_set cs idx = (cs ! nat (sint idx) \<noteq> 0, cs[nat (sint idx) := 1])"

definition atomic_clear :: "8 word list \<Rightarrow> 32 word \<Rightarrow> 8 word list" where
  "atomic_clear cs idx = cs[nat (sint idx) := 0]"

text \<open>
  The loop of \<^verbatim>\<open>get_digest_cookie\<close> (lines 43 to 50), on the status bytes, the
  index and the count. The result is the claimed position, or \<open>None\<close> for the
  \<^verbatim>\<open>NULL\<close> of line 49.
\<close>

function get_digest_cookie_loop ::
  "8 word list \<Rightarrow> 32 word \<Rightarrow> 32 word \<Rightarrow> fault + (32 word option \<times> 8 word list)" where
  "get_digest_cookie_loop cs idx cnt =
     (if \<not> in_pool cs idx then Inl OutOfBounds
      else case atomic_test_and_set cs idx of
        (True, cs') \<Rightarrow>
          (let idx1 = idx + 1;
               cnt1 = cnt + 1;
               idx2 = (if idx1 = WD_DIGEST_CTX_MSG_NUM then 0 else idx1)
           in if cnt1 = WD_DIGEST_CTX_MSG_NUM then Inr (None, cs')
              else get_digest_cookie_loop cs' idx2 cnt1)
      | (False, cs') \<Rightarrow> Inr (Some idx, cs'))"
  by pat_completeness auto
termination
proof (relation "measure (\<lambda>(cs, idx, cnt). unat (63 - cnt))", goal_cases)
  case 1
  show ?case by simp
next
  case 2
  have "unat (62 - cnt) < unat (63 - cnt)" if "cnt \<noteq> 63" for cnt :: "32 word"
    using that unat_minus_one [of "63 - cnt"] by (simp add: unat_gt_0)
  with 2 show ?case
    by (simp add: WD_DIGEST_CTX_MSG_NUM_def)
qed

declare get_digest_cookie_loop.simps [simp del]

text \<open>
  \<^verbatim>\<open>get_digest_cookie\<close> returns the position of the cookie it hands out (the C code
  returns its address), or \<open>None\<close>; on success it stores the position in
  \<^verbatim>\<open>cidx\<close>.
\<close>

definition get_digest_cookie ::
  "wcrypto_digest_ctx \<Rightarrow> fault + (32 word option \<times> wcrypto_digest_ctx)" where
  "get_digest_cookie ctx =
     (case get_digest_cookie_loop (cstatus ctx) (cidx ctx) 0 of
        Inl f \<Rightarrow> Inl f
      | Inr (None, cs') \<Rightarrow> Inr (None, ctx\<lparr>cstatus := cs'\<rparr>)
      | Inr (Some idx, cs') \<Rightarrow> Inr (Some idx, ctx\<lparr>cstatus := cs', cidx := idx\<rparr>))"

text \<open>
  \<^verbatim>\<open>put_digest_cookie\<close> takes the cookie as the position \<open>idx\<close> that lines 59 and
  60 compute from its address.
\<close>

definition put_digest_cookie ::
  "wcrypto_digest_ctx \<Rightarrow> 32 word \<Rightarrow> wd_log \<times> wcrypto_digest_ctx" where
  "put_digest_cookie ctx idx =
     (if idx <s 0 \<or> WD_DIGEST_CTX_MSG_NUM \<le>s idx
      then (WD_ERR ''digest cookie not exist!'', ctx)
      else (Silent, ctx\<lparr>cstatus := atomic_clear (cstatus ctx) idx\<rparr>))"

subsection \<open>Creating a session\<close>

definition null_ops :: wd_mm_ops where
  "null_ops = \<lparr>ops_alloc = 0, ops_free = 0, ops_dma_map = 0, ops_dma_unmap = 0, ops_usr = 0\<rparr>"

text \<open>The context after the \<^verbatim>\<open>memset\<close> of line 127: every byte is 0.\<close>

definition zero_cookie :: wcrypto_digest_cookie where
  "zero_cookie =
     \<lparr>c_tag = \<lparr>wcrypto_tag = \<lparr>t_ctx = 0, t_ctx_id = 0, t_tag = 0\<rparr>, long_data_len = 0\<rparr>,
      c_msg = \<lparr>m_alg_type = 0, m_alg = 0, m_mode = WCRYPTO_DIGEST_NORMAL, m_data_fmt = 0,
               m_has_next = False, m_key = 0, m_key_bytes = 0, m_in = 0, m_in_bytes = 0,
               m_out = 0, m_out_bytes = 0, m_result = 0, m_usr_data = (0, 0)\<rparr>\<rparr>"

definition zero_ctx :: wcrypto_digest_ctx where
  "zero_ctx =
     \<lparr>cookies = replicate (unat WD_DIGEST_CTX_MSG_NUM) zero_cookie,
      cstatus = replicate (unat WD_DIGEST_CTX_MSG_NUM) 0,
      cidx = 0, ctx_id = 0, ctx_key = 0, key_bytes = 0, io_bytes = 0, ctx_q = 0,
      ctx_setup = \<lparr>s_cb = 0, s_alg = 0, s_mode = WCRYPTO_DIGEST_NORMAL, s_ops = null_ops,
                   s_data_fmt = 0\<rparr>\<rparr>"

text \<open>The body of the loop of lines 140 to 148, for the cookie at position \<open>i\<close>.\<close>

definition init_cookie ::
  "wd_h \<Rightarrow> wcrypto_digest_ctx_setup \<Rightarrow> addr \<Rightarrow> 32 word \<Rightarrow> nat \<Rightarrow>
   wcrypto_digest_cookie \<Rightarrow> wcrypto_digest_cookie" where
  "init_cookie K su ctx cid i c =
     c\<lparr>c_msg := (c_msg c)\<lparr>m_alg_type := WD_DIGEST K, m_alg := s_alg su, m_mode := s_mode su,
                           m_data_fmt := s_data_fmt su, m_usr_data := (ctx, of_nat i)\<rparr>,
       c_tag := (c_tag c)\<lparr>wcrypto_tag := (wcrypto_tag (c_tag c))\<lparr>t_ctx := ctx, t_ctx_id := cid\<rparr>\<rparr>\<rparr>"

text \<open>
  \<^verbatim>\<open>wcrypto_create_digest_ctx\<close>. \<open>q\<close> is the queue pointer and \<open>qv\<close> the queue it
  points to; \<open>su\<close> is the setup, \<open>None\<close> for \<^verbatim>\<open>NULL\<close>. What \<^verbatim>\<open>malloc\<close> returns
  is the parameter \<open>malloc_ret\<close>, and the allocator of the setup is the
  function \<open>user_alloc\<close>. The result is the new context (\<open>None\<close> for \<^verbatim>\<open>NULL\<close>),
  which lives at \<open>malloc_ret\<close>, and the queue as the call leaves it.
\<close>

definition wcrypto_create_digest_ctx ::
  "wd_h \<Rightarrow> addr \<Rightarrow> (addr \<Rightarrow> nat \<Rightarrow> addr) \<Rightarrow> addr \<Rightarrow> wd_queue \<Rightarrow>
   wcrypto_digest_ctx_setup option \<Rightarrow> wcrypto_digest_ctx option \<times> wd_queue" where
  "wcrypto_create_digest_ctx K malloc_ret user_alloc q qv su_p =
     (case su_p of
        None \<Rightarrow> (None, qv)
      | Some su \<Rightarrow>
          if q = 0 then (None, qv)
          else if s_mode su = WCRYPTO_DIGEST_HMAC \<and>
                  (ops_alloc (s_ops su) = 0 \<or> ops_free (s_ops su) = 0 \<or>
                   ops_dma_map (s_ops su) = 0 \<or> ops_dma_unmap (s_ops su) = 0)
          then (None, qv)
          else if take 6 (capa_alg qv) \<noteq> ''digest'' then (None, qv)
          else
            let qinfo = q_info qv;
                qinfo1 = (if ops_alloc (q_ops qinfo) = 0 \<and> ops_dma_map (q_ops qinfo) = 0
                          then qinfo\<lparr>q_ops := s_ops su\<rparr> else qinfo)
            in if ops_usr (q_ops qinfo1) \<noteq> ops_usr (s_ops su)
               then (None, qv\<lparr>q_info := qinfo1\<rparr>)
               else
                 let qinfo2 = qinfo1\<lparr>ctx_num := ctx_num qinfo1 + 1\<rparr>;
                     cid = ctx_num qinfo2;
                     qv2 = qv\<lparr>q_info := qinfo2\<rparr>
                 in if WD_DIGEST_MAX_CTX <s cid then (None, qv2)
                    else if malloc_ret = 0 then (None, qv2)
                    else
                      let ctx1 = zero_ctx\<lparr>ctx_setup := su, ctx_q := q, ctx_id := cid\<rparr>;
                          k = (if s_mode su = WCRYPTO_DIGEST_HMAC
                               then user_alloc (ops_usr (s_ops su)) MAX_HMAC_KEY_SIZE
                               else ctx_key ctx1);
                          ctx2 = ctx1\<lparr>ctx_key := k\<rparr>
                      in if s_mode su = WCRYPTO_DIGEST_HMAC \<and> k = 0 then (None, qv2)
                         else (Some (ctx2\<lparr>cookies :=
                                 map (\<lambda>i. init_cookie K su malloc_ret cid i (cookies ctx2 ! i))
                                   [0 ..< unat WD_DIGEST_CTX_MSG_NUM]\<rparr>), qv2))"

subsection \<open>Setting the key\<close>

text \<open>
  Memory is a function from addresses to bytes. \<^verbatim>\<open>memcpy\<close> writes the \<open>n\<close> bytes
  that start at \<open>src\<close> to the \<open>n\<close> addresses that start at \<open>dst\<close>.
\<close>

type_synonym memory = "addr \<Rightarrow> 8 word"

definition memcpy :: "memory \<Rightarrow> addr \<Rightarrow> addr \<Rightarrow> nat \<Rightarrow> memory" where
  "memcpy mem dst src n = (\<lambda>a. if dst \<le> a \<and> a < dst + n then mem (src + (a - dst)) else mem a)"

definition wcrypto_set_digest_key ::
  "wd_h \<Rightarrow> memory \<Rightarrow> wcrypto_digest_ctx option \<Rightarrow> addr \<Rightarrow> 16 word \<Rightarrow>
   32 word \<times> wcrypto_digest_ctx option \<times> memory" where
  "wcrypto_set_digest_key K mem ctx key key_len =
     (case ctx of
        None \<Rightarrow> (- WD_EINVAL K, ctx, mem)
      | Some ctxt \<Rightarrow>
          if key = 0 then (- WD_EINVAL K, ctx, mem)
          else (WD_SUCCESS K, Some (ctxt\<lparr>key_bytes := ucast key_len\<rparr>),
                memcpy mem (ctx_key ctxt) key (unat key_len)))"

subsection \<open>Destroying a session\<close>

text \<open>The calls that hand memory back: the allocator's \<^verbatim>\<open>free\<close> with its two arguments, and \<^verbatim>\<open>free(ctx)\<close>.\<close>

datatype release = Ops_free addr addr | Free_ctx

definition del_ctx_key :: "wcrypto_digest_ctx \<Rightarrow> release list" where
  "del_ctx_key ctx =
     (let ops = s_ops (ctx_setup ctx)
      in if ops_free ops \<noteq> 0 \<and> ctx_key ctx \<noteq> 0 then [Ops_free (ops_usr ops) (ctx_key ctx)] else [])"

text \<open>
  \<^verbatim>\<open>wcrypto_del_digest_ctx\<close>, on the context and on the queue \<open>qv\<close> that the
  context's \<^verbatim>\<open>q\<close> points to. It returns the diagnostic, the queue as the call
  leaves it, and the releases it made.
\<close>

definition wcrypto_del_digest_ctx ::
  "wcrypto_digest_ctx option \<Rightarrow> wd_queue \<Rightarrow> wd_log \<times> wd_queue \<times> release list" where
  "wcrypto_del_digest_ctx ctx qv =
     (case ctx of
        None \<Rightarrow> (WD_ERR ''Delete digest ctx is NULL!'', qv, [])
      | Some cx \<Rightarrow>
          let qinfo = q_info qv;
              qinfo1 = qinfo\<lparr>ctx_num := ctx_num qinfo - 1\<rparr>;
              qinfo2 = (if ctx_num qinfo1 = 0 then qinfo1\<lparr>q_ops := null_ops\<rparr> else qinfo1)
          in if ctx_num qinfo2 <s 0
             then (WD_ERR ''errer:repeat del digest ctx!'', qv\<lparr>q_info := qinfo2\<rparr>, [])
             else (Silent, qv\<lparr>q_info := qinfo2\<rparr>, del_ctx_key cx @ [Free_ctx]))"

subsection \<open>The transport\<close>

text \<open>
  \<^verbatim>\<open>wd_send\<close> and \<^verbatim>\<open>wd_recv\<close> belong to the transport and are parameters, as is the
  state \<open>'t\<close> of the queue that they work on. \<^verbatim>\<open>wd_recv\<close> reads and writes the
  pointer \<^verbatim>\<open>resp\<close>: a \<open>Token\<close> is a pointer value that refers to no reply
  (\<open>Token 0\<close> is \<^verbatim>\<open>NULL\<close>, \<open>Token id\<close> the session id that line 224 casts to a
  pointer), a \<open>Reply\<close> points to the reply record shown.
\<close>

datatype resp_ptr = Token "32 word" | Reply wcrypto_digest_msg

record 't transport =
  wd_send :: "'t \<Rightarrow> wcrypto_digest_msg \<Rightarrow> 32 word \<times> 't"
  wd_recv :: "'t \<Rightarrow> resp_ptr \<Rightarrow> 32 word \<times> resp_ptr \<times> 't"

subsection \<open>Submitting a request\<close>

definition digest_request_init ::
  "wd_h \<Rightarrow> wcrypto_digest_msg \<Rightarrow> wcrypto_digest_op_data \<Rightarrow> wcrypto_digest_ctx \<Rightarrow>
   32 word \<times> wcrypto_digest_msg \<times> wcrypto_digest_ctx" where
  "digest_request_init K req op c =
     (WD_SUCCESS K,
      req\<lparr>m_has_next := op_has_next op, m_key := ctx_key c, m_key_bytes := key_bytes c,
          m_in := op_in op, m_in_bytes := op_in_bytes op,
          m_out := op_out op, m_out_bytes := op_out_bytes op\<rparr>,
      c\<lparr>io_bytes := io_bytes c + ucast (op_in_bytes op)\<rparr>)"

text \<open>Reading and writing the cookie at a position of the pool.\<close>

definition cookie_at :: "wcrypto_digest_ctx \<Rightarrow> 32 word \<Rightarrow> wcrypto_digest_cookie" where
  "cookie_at ctx idx = cookies ctx ! nat (sint idx)"

definition set_cookie ::
  "wcrypto_digest_ctx \<Rightarrow> 32 word \<Rightarrow> wcrypto_digest_cookie \<Rightarrow> wcrypto_digest_ctx" where
  "set_cookie ctx idx c = ctx\<lparr>cookies := (cookies ctx)[nat (sint idx) := c]\<rparr>"

text \<open>
  The loop of lines 225 to 237, from one \<^verbatim>\<open>wd_recv\<close> to the next. It ends with the
  timeout of line 230 (\<open>True\<close>) or with the first return value of \<^verbatim>\<open>wd_recv\<close> that
  is not 0.
\<close>

function recv_again ::
  "'t transport \<Rightarrow> 't \<Rightarrow> resp_ptr \<Rightarrow> 64 word \<Rightarrow> bool \<times> 32 word \<times> resp_ptr \<times> 't" where
  "recv_again T hw resp recv_count =
     (case wd_recv T hw resp of
        (ret, resp1, hw1) \<Rightarrow>
          if ret = 0 then
            (if MAX_DIGEST_RETRY_CNT < recv_count + 1 then (True, ret, resp1, hw1)
             else recv_again T hw1 resp1 (recv_count + 1))
          else (False, ret, resp1, hw1))"
  by pat_completeness auto
termination
proof (relation "measure (\<lambda>(T, hw, resp, c). unat (MAX_DIGEST_RETRY_CNT - c))", goal_cases)
  case 1
  show ?case by simp
next
  case 2
  have "unat (19999999 - c) < unat (20000000 - c)" if "\<not> 20000000 < c + 1" for c :: "64 word"
  proof -
    from that have "20000000 - c \<noteq> 0"
      by auto
    then show ?thesis
      using unat_minus_one [of "20000000 - c"] by (simp add: unat_gt_0)
  qed
  with 2 show ?case
    by (simp add: MAX_DIGEST_RETRY_CNT_def)
qed

declare recv_again.simps [simp del]

text \<open>The label \<^verbatim>\<open>fail_with_cookie\<close>: release the cookie and return \<open>ret\<close>.\<close>

definition fail_with_cookie ::
  "32 word \<Rightarrow> wcrypto_digest_ctx \<Rightarrow> 32 word \<Rightarrow> 't \<Rightarrow> wcrypto_digest_op_data \<Rightarrow>
   32 word \<times> wcrypto_digest_ctx option \<times> 't \<times> wcrypto_digest_op_data option" where
  "fail_with_cookie ret ctxt idx hw opdata =
     (ret, Some (snd (put_digest_cookie ctxt idx)), hw, Some opdata)"

text \<open>
  \<^verbatim>\<open>wcrypto_do_digest\<close>, on the context, the state \<open>hw\<close> of its queue, the
  operation data and the tag. It returns the return value together with the
  context, the queue and the operation data as the call leaves them.
\<close>

definition wcrypto_do_digest ::
  "wd_h \<Rightarrow> 't transport \<Rightarrow> wcrypto_digest_ctx option \<Rightarrow> 't \<Rightarrow>
   wcrypto_digest_op_data option \<Rightarrow> addr \<Rightarrow>
   fault + (32 word \<times> wcrypto_digest_ctx option \<times> 't \<times> wcrypto_digest_op_data option)" where
  "wcrypto_do_digest K T ctx hw opdata_p tag =
     (case (ctx, opdata_p) of
        (Some ctxt, Some opdata) \<Rightarrow>
          (case get_digest_cookie ctxt of
             Inl f \<Rightarrow> Inl f
           | Inr (None, ctxt1) \<Rightarrow> Inr (- WD_EBUSY K, Some ctxt1, hw, opdata_p)
           | Inr (Some idx, ctxt1) \<Rightarrow>
               if \<not> nat (sint idx) < length (cookies ctxt1) then Inl OutOfBounds
               else if tag \<noteq> 0 \<and> s_cb (ctx_setup ctxt1) = 0
               then Inr (fail_with_cookie (- WD_EINVAL K) ctxt1 idx hw opdata)
               else
                 let cookie = cookie_at ctxt1 idx;
                     cookie1 = (if tag \<noteq> 0
                                then cookie\<lparr>c_tag := (c_tag cookie)\<lparr>wcrypto_tag :=
                                       (wcrypto_tag (c_tag cookie))\<lparr>t_tag := tag\<rparr>\<rparr>\<rparr>
                                else cookie);
                     (ret, req, ctxt2) =
                        digest_request_init K (c_msg cookie1) opdata (set_cookie ctxt1 idx cookie1);
                     cookie2 = cookie1\<lparr>c_msg := req\<rparr>;
                     ctxt3 = set_cookie ctxt2 idx cookie2
                 in if ret \<noteq> 0 then Inr (fail_with_cookie ret ctxt3 idx hw opdata)
                    else
                      let cookie3 = (if \<not> op_has_next opdata
                                     then cookie2\<lparr>c_tag := (c_tag cookie2)\<lparr>long_data_len :=
                                            io_bytes ctxt3\<rparr>\<rparr>
                                     else cookie2);
                          ctxt4 = (if \<not> op_has_next opdata
                                   then (set_cookie ctxt3 idx cookie3)\<lparr>io_bytes := 0\<rparr>
                                   else ctxt3);
                          (ret1, hw1) = wd_send T hw req
                      in if ret1 \<noteq> 0 then Inr (fail_with_cookie ret1 ctxt4 idx hw1 opdata)
                         else if tag \<noteq> 0 then Inr (ret1, Some ctxt4, hw1, opdata_p)
                         else
                           (case recv_again T hw1 (Token (ctx_id ctxt4)) 0 of
                              (True, ret2, resp, hw2) \<Rightarrow>
                                Inr (fail_with_cookie (- WD_ETIMEDOUT K) ctxt4 idx hw2 opdata)
                            | (False, ret2, resp, hw2) \<Rightarrow>
                                if ret2 <s 0 then Inr (fail_with_cookie ret2 ctxt4 idx hw2 opdata)
                                else
                                  (case resp of
                                     Token t \<Rightarrow> Inl BadPointer
                                   | Reply r \<Rightarrow>
                                       Inr (fail_with_cookie (WD_SUCCESS K) ctxt4 idx hw2
                                              (opdata\<lparr>op_out := m_out r,
                                                      op_out_bytes := m_out_bytes r,
                                                      op_status := m_result r\<rparr>)))))
      | _ \<Rightarrow> Inr (- WD_EINVAL K, ctx, hw, opdata_p))"

subsection \<open>Polling for completions\<close>

text \<open>
  A call of a session's callback is recorded with the function called and its
  two arguments, the reply and the tag. The sessions live in a heap, from
  addresses to contexts, since the poller finds the session of a reply through
  the pointers that the reply carries.
\<close>

type_synonym cb_call = "fnptr \<times> wcrypto_digest_msg \<times> addr"
type_synonym ctx_heap = "addr \<Rightarrow> wcrypto_digest_ctx option"

text \<open>
  What one round of the poller does with a reply that it has received, lines
  265 to 275: it writes the hardware error into the reply, finds the tag through
  \<^verbatim>\<open>usr_data\<close> and the session through the tag, calls the callback and releases
  the cookie. The result is the heap after the release and the call made. A tag
  whose back reference names another context than the one that holds it would
  give \<^verbatim>\<open>put_digest_cookie\<close> a position that depends on where the two contexts
  lie in memory; the model stops with a fault there.
\<close>

definition complete_reply ::
  "wd_h \<Rightarrow> ctx_heap \<Rightarrow> 32 word \<Rightarrow> resp_ptr \<Rightarrow> fault + (ctx_heap \<times> cb_call)" where
  "complete_reply K heap ret resp =
     (case resp of
        Token t \<Rightarrow> Inl BadPointer
      | Reply r0 \<Rightarrow>
          let r = (if ret = - WD_HW_ERR K then r0\<lparr>m_result := WD_HW_ERR K\<rparr> else r0);
              (a, i) = m_usr_data r
          in (case heap a of
                None \<Rightarrow> Inl BadPointer
              | Some holder \<Rightarrow>
                  if \<not> (0 \<le> sint i \<and> nat (sint i) < length (cookies holder))
                  then Inl OutOfBounds
                  else
                    let tag = c_tag (cookie_at holder i);
                        ca = t_ctx (wcrypto_tag tag)
                    in (case heap ca of
                          None \<Rightarrow> Inl BadPointer
                        | Some ctx \<Rightarrow>
                            if s_cb (ctx_setup ctx) = 0 then Inl NullCall
                            else if ca \<noteq> a then Inl BadPointer
                            else Inr (heap(ca \<mapsto> snd (put_digest_cookie ctx i)),
                                      (s_cb (ctx_setup ctx), r, t_tag (wcrypto_tag tag))))))"

text \<open>
  The loop of \<^verbatim>\<open>wcrypto_digest_poll\<close> (lines 255 to 276) from the top of one
  round, with the count and the calls made so far.
\<close>

function digest_poll_loop ::
  "wd_h \<Rightarrow> 't transport \<Rightarrow> ctx_heap \<Rightarrow> 't \<Rightarrow> 32 word \<Rightarrow> 32 word \<Rightarrow> cb_call list \<Rightarrow>
   fault + (32 word \<times> ctx_heap \<times> 't \<times> cb_call list)" where
  "digest_poll_loop K T heap hw num count calls =
     (case wd_recv T hw (Token 0) of
        (ret, resp, hw1) \<Rightarrow>
          if ret = 0 then Inr (count, heap, hw1, calls)
          else if ret = - WD_HW_ERR K \<and> resp = Token 0 then Inr (ret, heap, hw1, calls)
          else if ret \<noteq> - WD_HW_ERR K \<and> ret <s 0 then Inr (ret, heap, hw1, calls)
          else
            (case complete_reply K heap ret resp of
               Inl f \<Rightarrow> Inl f
             | Inr (heap1, call) \<Rightarrow>
                 if num - 1 \<noteq> 0
                 then digest_poll_loop K T heap1 hw1 (num - 1) (count + 1) (calls @ [call])
                 else Inr (count + 1, heap1, hw1, calls @ [call])))"
  by pat_completeness auto
termination
proof (relation "measure (\<lambda>(K, T, heap, hw, num, count, calls). unat (num - 1))", goal_cases)
  case 1
  show ?case by simp
next
  case 2
  have "unat (n - 2) < unat (n - 1)" if "n \<noteq> 1" for n :: "32 word"
    using that unat_minus_one [of "n - 1"] by (simp add: unat_gt_0)
  with 2 show ?case
    by simp
qed

declare digest_poll_loop.simps [simp del]

definition wcrypto_digest_poll ::
  "wd_h \<Rightarrow> 't transport \<Rightarrow> ctx_heap \<Rightarrow> 't \<Rightarrow> 32 word \<Rightarrow>
   fault + (32 word \<times> ctx_heap \<times> 't \<times> cb_call list)" where
  "wcrypto_digest_poll K T heap hw num = digest_poll_loop K T heap hw num 0 []"

subsection \<open>Example values\<close>

text \<open>Return codes for the examples: the error numbers of Linux, and 62 for the hardware error.\<close>

definition example_codes :: wd_h where
  "example_codes = \<lparr>WD_SUCCESS = 0, WD_EINVAL = 22, WD_EBUSY = 16, WD_ETIMEDOUT = 110,
                     WD_HW_ERR = 62, WD_DIGEST = 1\<rparr>"

text \<open>A digest queue with no session and no allocator registered.\<close>

definition empty_queue :: wd_queue where
  "empty_queue = \<lparr>capa_alg = ''digest'', q_info = \<lparr>ctx_num = 0, q_ops = null_ops\<rparr>\<rparr>"

text \<open>Setups without and with a key, and a queue that holds the maximum of 256 sessions.\<close>

definition plain_setup :: wcrypto_digest_ctx_setup where
  "plain_setup = \<lparr>s_cb = 0, s_alg = 0, s_mode = WCRYPTO_DIGEST_NORMAL, s_ops = null_ops,
                   s_data_fmt = 0\<rparr>"

definition hmac_ops :: wd_mm_ops where
  "hmac_ops = \<lparr>ops_alloc = 1, ops_free = 2, ops_dma_map = 3, ops_dma_unmap = 4, ops_usr = 7\<rparr>"

definition hmac_setup :: wcrypto_digest_ctx_setup where
  "hmac_setup = \<lparr>s_cb = 0, s_alg = 0, s_mode = WCRYPTO_DIGEST_HMAC, s_ops = hmac_ops,
                  s_data_fmt = 0\<rparr>"

definition full_queue :: wd_queue where
  "full_queue = \<lparr>capa_alg = ''digest'', q_info = \<lparr>ctx_num = 256, q_ops = null_ops\<rparr>\<rparr>"

text \<open>A memory that holds the byte 255 at the addresses from 100 to 299 and 0 elsewhere.\<close>

definition key_source :: memory where
  "key_source = (\<lambda>a. if 100 \<le> a \<and> a < 300 then 255 else 0)"

text \<open>The session that a plain setup creates on the empty queue, at address 4096.\<close>

definition plain_session :: wcrypto_digest_ctx where
  "plain_session =
     the (fst (wcrypto_create_digest_ctx example_codes 4096 (\<lambda>usr n. 8192) 1 empty_queue
                 (Some plain_setup)))"

subsection \<open>Pools and sequences of acquisitions\<close>

text \<open>
  A pool as the C types and the code keep it: 64 cookies, 64 status bytes that
  are 0 or the set value 1, and a hint that is a position of the pool.
\<close>

definition pool_ok :: "wcrypto_digest_ctx \<Rightarrow> bool" where
  "pool_ok ctx \<longleftrightarrow>
     length (cstatus ctx) = 64 \<and> length (cookies ctx) = 64 \<and> cidx ctx < 64 \<and>
     (\<forall>b \<in> set (cstatus ctx). b = 0 \<or> b = 1)"

text \<open>
  \<open>n\<close> calls of \<^verbatim>\<open>get_digest_cookie\<close> in a row, with no release in between,
  and the number of free slots of a pool.
\<close>

fun acquire_all ::
  "nat \<Rightarrow> wcrypto_digest_ctx \<Rightarrow> fault + (32 word option list \<times> wcrypto_digest_ctx)" where
  "acquire_all 0 ctx = Inr ([], ctx)"
| "acquire_all (Suc n) ctx =
     (case get_digest_cookie ctx of
        Inl f \<Rightarrow> Inl f
      | Inr (r, ctx1) \<Rightarrow>
          (case acquire_all n ctx1 of
             Inl f \<Rightarrow> Inl f
           | Inr (rs, ctx2) \<Rightarrow> Inr (r # rs, ctx2)))"

definition free_slots :: "8 word list \<Rightarrow> nat" where
  "free_slots cs = length (filter (\<lambda>b. b = 0) cs)"

subsection \<open>Transports and sessions for the examples\<close>

text \<open>
  One \<^verbatim>\<open>wd_recv\<close> as a step on the pair of the pointer \<^verbatim>\<open>resp\<close> and the state of
  the queue: \<open>recv_step T ^^ n\<close> is what \<open>n\<close> calls in a row leave.
\<close>

definition recv_step :: "'t transport \<Rightarrow> resp_ptr \<times> 't \<Rightarrow> resp_ptr \<times> 't" where
  "recv_step T = (\<lambda>(resp, hw). snd (wd_recv T hw resp))"

text \<open>
  A transport that accepts every request and never has a reply; the state of
  its queue counts the calls of \<^verbatim>\<open>wd_recv\<close>.
\<close>

definition silent_transport :: "nat transport" where
  "silent_transport =
     \<lparr>wd_send = (\<lambda>hw req. (0, hw)), wd_recv = (\<lambda>hw resp. (0, resp, Suc hw))\<rparr>"

text \<open>A session with a callback and an idle pool, and a segment of a given length.\<close>

definition async_session :: wcrypto_digest_ctx where
  "async_session = zero_ctx\<lparr>ctx_setup := plain_setup\<lparr>s_cb := 9\<rparr>\<rparr>"

definition segment :: "32 word \<Rightarrow> bool \<Rightarrow> wcrypto_digest_op_data" where
  "segment n has_more =
     \<lparr>op_in = 100, op_out = 200, op_in_bytes = n, op_out_bytes = 32, op_status = 0,
      op_has_next = has_more\<rparr>"

subsection \<open>Observing the poller\<close>

text \<open>
  One \<^verbatim>\<open>wd_recv\<close> of the poller, which passes \<^verbatim>\<open>NULL\<close> for \<^verbatim>\<open>resp\<close>, as a step on
  the state of the queue, and the value and the pointer that the call number
  \<open>j\<close> (from 0) of a run of such calls returns.
\<close>

definition poll_step :: "'t transport \<Rightarrow> 't \<Rightarrow> 't" where
  "poll_step T hw = snd (snd (wd_recv T hw (Token 0)))"

definition poll_ret :: "'t transport \<Rightarrow> 't \<Rightarrow> nat \<Rightarrow> 32 word" where
  "poll_ret T hw j = fst (wd_recv T ((poll_step T ^^ j) hw) (Token 0))"

definition poll_resp :: "'t transport \<Rightarrow> 't \<Rightarrow> nat \<Rightarrow> resp_ptr" where
  "poll_resp T hw j = fst (snd (wd_recv T ((poll_step T ^^ j) hw) (Token 0)))"

text \<open>
  The two tests of lines 260 to 270 that make the poller return the value of
  \<^verbatim>\<open>wd_recv\<close>: the hardware error code without a reply, or another negative
  value. A callback is passed the reply of its round when its first argument is
  that reply, with the hardware error as its result when the round returned the
  hardware error code.
\<close>

definition recv_error :: "wd_h \<Rightarrow> 32 word \<Rightarrow> resp_ptr \<Rightarrow> bool" where
  "recv_error K ret resp \<longleftrightarrow>
     ret = - WD_HW_ERR K \<and> resp = Token 0 \<or> ret \<noteq> - WD_HW_ERR K \<and> ret <s 0"

definition reply_passed :: "wd_h \<Rightarrow> 32 word \<Rightarrow> resp_ptr \<Rightarrow> cb_call \<Rightarrow> bool" where
  "reply_passed K ret resp call =
     (case resp of
        Token t \<Rightarrow> False
      | Reply r0 \<Rightarrow>
          fst (snd call) = (if ret = - WD_HW_ERR K then r0\<lparr>m_result := WD_HW_ERR K\<rparr> else r0))"

text \<open>
  A transport whose queue is the list of what the coming calls of \<^verbatim>\<open>wd_recv\<close>
  return, each a return value and a pointer; on the empty list nothing is ready.
  It accepts every request.
\<close>

definition scripted :: "(32 word \<times> resp_ptr) list transport" where
  "scripted =
     \<lparr>wd_send = (\<lambda>hw req. (0, hw)),
      wd_recv = (\<lambda>hw resp. case hw of [] \<Rightarrow> (0, resp, []) | (ret, r) # rest \<Rightarrow> (ret, r, rest))\<rparr>"

text \<open>
  An entry of such a list is deliverable when it is a completion (a positive
  return value) or a hardware error, and its reply names, through \<^verbatim>\<open>usr_data\<close>,
  a cookie of a session of the heap that has a callback and whose tag points
  back to that session. The call expected for the entry has the callback of the
  session, the reply (with the hardware error as its result when the entry is
  one) and the tag stored in the cookie. The slot of the entry is released when
  its status byte is 0.
\<close>

definition deliverable :: "wd_h \<Rightarrow> ctx_heap \<Rightarrow> 32 word \<times> resp_ptr \<Rightarrow> bool" where
  "deliverable K heap x =
     (case snd x of
        Token t \<Rightarrow> False
      | Reply r \<Rightarrow>
          (0 <s fst x \<or> fst x = - WD_HW_ERR K) \<and>
          (case heap (fst (m_usr_data r)) of
             None \<Rightarrow> False
           | Some ctx \<Rightarrow>
               snd (m_usr_data r) < 64 \<and>
               length (cookies ctx) = 64 \<and> length (cstatus ctx) = 64 \<and>
               t_ctx (wcrypto_tag (c_tag (cookie_at ctx (snd (m_usr_data r))))) =
                 fst (m_usr_data r) \<and>
               s_cb (ctx_setup ctx) \<noteq> 0))"

definition expected_call :: "wd_h \<Rightarrow> ctx_heap \<Rightarrow> 32 word \<times> resp_ptr \<Rightarrow> cb_call option" where
  "expected_call K heap x =
     (case snd x of
        Token t \<Rightarrow> None
      | Reply r \<Rightarrow>
          (case heap (fst (m_usr_data r)) of
             None \<Rightarrow> None
           | Some ctx \<Rightarrow>
               Some (s_cb (ctx_setup ctx),
                     (if fst x = - WD_HW_ERR K then r\<lparr>m_result := WD_HW_ERR K\<rparr> else r),
                     t_tag (wcrypto_tag (c_tag (cookie_at ctx (snd (m_usr_data r))))))))"

definition slot_released :: "ctx_heap \<Rightarrow> 32 word \<times> resp_ptr \<Rightarrow> bool" where
  "slot_released heap x =
     (case snd x of
        Token t \<Rightarrow> False
      | Reply r \<Rightarrow>
          (case heap (fst (m_usr_data r)) of
             None \<Rightarrow> False
           | Some ctx \<Rightarrow> cstatus ctx ! unat (snd (m_usr_data r)) = 0))"

text \<open>Two heaps hold the same sessions, up to status bytes that have been cleared.\<close>

definition cleared_from :: "ctx_heap \<Rightarrow> ctx_heap \<Rightarrow> bool" where
  "cleared_from heap heap' \<longleftrightarrow>
     (\<forall>a. case heap a of
             None \<Rightarrow> heap' a = None
           | Some c \<Rightarrow>
               (case heap' a of
                  None \<Rightarrow> False
                | Some c' \<Rightarrow>
                    cookies c' = cookies c \<and> ctx_setup c' = ctx_setup c \<and>
                    length (cstatus c') = length (cstatus c) \<and>
                    (\<forall>j. cstatus c ! j = 0 \<longrightarrow> cstatus c' ! j = 0)))"

text \<open>
  A session with callback 9 at address 4096, all of whose slots are leased, the
  heap that holds it, the reply for the request of a slot, and queues of three
  completions and of five replies, two of them with a hardware error.
\<close>

definition callback_setup :: wcrypto_digest_ctx_setup where
  "callback_setup = plain_setup\<lparr>s_cb := 9\<rparr>"

definition polled_session :: wcrypto_digest_ctx where
  "polled_session =
     (the (fst (wcrypto_create_digest_ctx example_codes 4096 (\<lambda>usr n. 0) 1 empty_queue
                  (Some callback_setup))))\<lparr>cstatus := replicate 64 1\<rparr>"

definition polled_heap :: ctx_heap where
  "polled_heap = [4096 \<mapsto> polled_session]"

definition reply_of :: "32 word \<Rightarrow> wcrypto_digest_msg" where
  "reply_of i = (c_msg (cookie_at polled_session i))\<lparr>m_out_bytes := 32\<rparr>"

definition three_replies :: "(32 word \<times> resp_ptr) list" where
  "three_replies = [(1, Reply (reply_of 0)), (1, Reply (reply_of 1)), (1, Reply (reply_of 2))]"


text \<open>A queue with one completion, followed by a transport error.\<close>

definition failing_queue :: "(32 word \<times> resp_ptr) list" where
  "failing_queue = [(1, Reply (reply_of 0)), (- 5, Token 0)]"

text \<open>What the caller of the poller sees: the return value, the queue, the number of callbacks.\<close>

definition poll_result ::
  "fault + (32 word \<times> ctx_heap \<times> 't \<times> cb_call list) \<Rightarrow> (32 word \<times> 't \<times> nat) option" where
  "poll_result res =
     (case res of Inl f \<Rightarrow> None | Inr (ret, heap, hw, calls) \<Rightarrow> Some (ret, hw, length calls))"

section \<open>Properties\<close>

subsection \<open>Auxiliary facts\<close>

lemma list_update_same: "xs ! i = v \<Longrightarrow> xs[i := v] = xs"
  using list_update_id [of xs i] by auto

text \<open>Small numbers as 32-bit words, and the sign of a negated return code.\<close>

lemma unat_of_nat_small:
  "a < 2 ^ 32 \<Longrightarrow> unat (of_nat a :: 32 word) = a"
  by (simp add: unat_of_nat)

lemma sint_of_nat_small:
  "a < 2 ^ 31 \<Longrightarrow> sint (of_nat a :: 32 word) = int a"
proof -
  assume a: "a < 2 ^ 31"
  then have "uint (of_nat a :: 32 word) = int a"
    by (simp add: uint_nat unat_of_nat)
  then show ?thesis
    using a by (simp add: sint_uint signed_take_bit_int_eq_self)
qed

lemma of_nat_eq_small:
  "a < 2 ^ 32 \<Longrightarrow> b < 2 ^ 32 \<Longrightarrow> (of_nat a :: 32 word) = of_nat b \<longleftrightarrow> a = b"
proof
  assume "a < 2 ^ 32" "b < 2 ^ 32" "(of_nat a :: 32 word) = of_nat b"
  then have "unat (of_nat a :: 32 word) = unat (of_nat b :: 32 word)"
    by simp
  then show "a = b"
    using \<open>a < 2 ^ 32\<close> \<open>b < 2 ^ 32\<close> by (simp add: unat_of_nat)
qed simp

lemma sint_slot:
  fixes s :: "32 word"
  assumes "s < 64"
  shows "sint s = int (unat s)" and "nat (sint s) = unat s" and "0 \<le>s s" and "s <s 64"
proof -
  have u: "unat s < 64"
    using assms by (simp add: word_less_nat_alt)
  then have "sint (of_nat (unat s) :: 32 word) = int (unat s)"
    by (intro sint_of_nat_small) simp
  then show s: "sint s = int (unat s)"
    by simp
  then show "nat (sint s) = unat s"
    by simp
  show "0 \<le>s s" "s <s 64"
    using s u by (simp_all add: word_sle_eq word_sless_alt del: of_nat_unat)
qed

lemma sint_neg_code:
  fixes x :: "32 word"
  assumes "0 <s x"
  shows "sint (- x) = - sint x" and "- x <s 0" and "- x \<noteq> 0"
proof -
  from assms have p: "0 < sint x"
    by (simp add: word_sless_alt)
  have "sint x < 2 ^ 31"
    using sint_lt [of x] by simp
  with p show s: "sint (- x) = - sint x"
    by (simp add: sint_word_minus signed_take_bit_int_eq_self)
  with p show "- x <s 0"
    by (simp add: word_sless_alt)
  then show "- x \<noteq> 0"
    by auto
qed

subsection \<open>Releasing a cookie\<close>

text \<open>
  C3, as stated, fails: releasing a slot that is already free is not rejected.
  On a fresh pool, where slot 0 is free, \<^verbatim>\<open>put_digest_cookie\<close> for slot 0 writes no
  diagnostic and leaves the context as it was.
\<close>

theorem release_of_free_slot_is_silent:
  "cstatus zero_ctx ! nat (sint (0 :: 32 word)) = 0 \<and>
   put_digest_cookie zero_ctx 0 = (Silent, zero_ctx)"
  by (simp add: put_digest_cookie_def zero_ctx_def atomic_clear_def WD_DIGEST_CTX_MSG_NUM_def
      word_sless_alt word_sle_eq list_update_same)

text \<open>
  C3, amended: \<^verbatim>\<open>put_digest_cookie\<close> checks the range of the position and nothing
  else. A position below 0 or from 64 on writes the diagnostic and leaves the
  context unchanged; the function returns nothing, so the diagnostic is all there
  is. A position in range has its status byte cleared without a diagnostic, and
  when the slot was free already the context stays as it was.
\<close>

theorem put_digest_cookie_checks_range_only:
  "(idx <s 0 \<or> WD_DIGEST_CTX_MSG_NUM \<le>s idx \<longrightarrow>
      put_digest_cookie ctx idx = (WD_ERR ''digest cookie not exist!'', ctx)) \<and>
   (0 \<le>s idx \<and> idx <s WD_DIGEST_CTX_MSG_NUM \<and> cstatus ctx ! nat (sint idx) = 0 \<longrightarrow>
      put_digest_cookie ctx idx = (Silent, ctx)) \<and>
   (0 \<le>s idx \<and> idx <s WD_DIGEST_CTX_MSG_NUM \<longrightarrow>
      fst (put_digest_cookie ctx idx) = Silent \<and>
      snd (put_digest_cookie ctx idx) = ctx\<lparr>cstatus := (cstatus ctx)[nat (sint idx) := 0]\<rparr>)"
  by (auto simp: put_digest_cookie_def atomic_clear_def list_update_same
      word_sless_alt word_sle_eq)

theorem put_digest_cookie_checks_range_only_witness:
  "put_digest_cookie zero_ctx 64 = (WD_ERR ''digest cookie not exist!'', zero_ctx) \<and>
   put_digest_cookie zero_ctx 5 = (Silent, zero_ctx)"
proof -
  have a: "(64 :: 32 word) <s 0 \<or> WD_DIGEST_CTX_MSG_NUM \<le>s 64"
    by (simp add: WD_DIGEST_CTX_MSG_NUM_def)
  have b: "0 \<le>s (5 :: 32 word) \<and> 5 <s WD_DIGEST_CTX_MSG_NUM \<and>
           cstatus zero_ctx ! nat (sint (5 :: 32 word)) = 0"
    by (simp add: WD_DIGEST_CTX_MSG_NUM_def zero_ctx_def word_sless_alt word_sle_eq)
  show ?thesis
    using put_digest_cookie_checks_range_only [of 64 zero_ctx]
      put_digest_cookie_checks_range_only [of 5 zero_ctx] a b
    by blast
qed

subsection \<open>Destroying a session on a queue without sessions\<close>

text \<open>
  C2: on a queue whose count is 0, \<^verbatim>\<open>wcrypto_del_digest_ctx\<close> writes the
  diagnostic for a repeated destroy, but line 293 has decremented the count
  before line 296 tests it, and nothing restores it: the call leaves the
  count at -1.
\<close>

theorem del_on_empty_queue_goes_negative:
  "wcrypto_del_digest_ctx (Some zero_ctx) empty_queue =
     (WD_ERR ''errer:repeat del digest ctx!'',
      empty_queue\<lparr>q_info := \<lparr>ctx_num = - 1, q_ops = null_ops\<rparr>\<rparr>, []) \<and>
   sint (ctx_num (q_info (fst (snd (wcrypto_del_digest_ctx (Some zero_ctx) empty_queue))))) = - 1"
  by (simp add: wcrypto_del_digest_ctx_def empty_queue_def Let_def word_sless_alt)

subsection \<open>Failures of session creation\<close>

text \<open>
  C1: a creation that fails after line 114 does not take the increment back.
  On a queue that holds 256 sessions the 257th creation returns \<^verbatim>\<open>NULL\<close> and
  leaves the count at 257. On the empty queue a creation whose \<^verbatim>\<open>malloc\<close> fails,
  and one whose key allocation fails, return \<^verbatim>\<open>NULL\<close> and leave the count at 1
  and the allocator of the failed setup registered.
\<close>

theorem failed_create_keeps_count_increment:
  "wcrypto_create_digest_ctx example_codes 4096 (\<lambda>usr n. 8192) 1 full_queue (Some plain_setup) =
     (None, full_queue\<lparr>q_info := \<lparr>ctx_num = 257, q_ops = null_ops\<rparr>\<rparr>) \<and>
   wcrypto_create_digest_ctx example_codes 0 (\<lambda>usr n. 8192) 1 empty_queue (Some hmac_setup) =
     (None, empty_queue\<lparr>q_info := \<lparr>ctx_num = 1, q_ops = hmac_ops\<rparr>\<rparr>) \<and>
   wcrypto_create_digest_ctx example_codes 4096 (\<lambda>usr n. 0) 1 empty_queue (Some hmac_setup) =
     (None, empty_queue\<lparr>q_info := \<lparr>ctx_num = 1, q_ops = hmac_ops\<rparr>\<rparr>)"
  by (simp add: wcrypto_create_digest_ctx_def full_queue_def empty_queue_def plain_setup_def
      hmac_setup_def hmac_ops_def null_ops_def Let_def WD_DIGEST_MAX_CTX_def word_sless_alt)

subsection \<open>Setting the key\<close>

text \<open>
  C9: for a session and a key that are not \<^verbatim>\<open>NULL\<close>, \<^verbatim>\<open>wcrypto_set_digest_key\<close>
  succeeds for every length, records the length as the key size, and copies
  exactly that many bytes to the addresses from the key pointer of the session
  on; every other address keeps its byte. No bound is tested: the bytes at the
  offsets from 128 on, past the 128 bytes that creation asks the allocator
  for, are written as well.
\<close>

theorem set_key_copies_without_bound:
  assumes "key \<noteq> 0"
  shows "fst (wcrypto_set_digest_key K mem (Some ctxt) key key_len) = WD_SUCCESS K \<and>
         fst (snd (wcrypto_set_digest_key K mem (Some ctxt) key key_len)) =
           Some (ctxt\<lparr>key_bytes := ucast key_len\<rparr>) \<and>
         (\<forall>i < unat key_len.
            snd (snd (wcrypto_set_digest_key K mem (Some ctxt) key key_len)) (ctx_key ctxt + i) =
              mem (key + i)) \<and>
         (\<forall>a. a < ctx_key ctxt \<or> ctx_key ctxt + unat key_len \<le> a \<longrightarrow>
            snd (snd (wcrypto_set_digest_key K mem (Some ctxt) key key_len)) a = mem a) \<and>
         (\<forall>i. MAX_HMAC_KEY_SIZE \<le> i \<and> i < unat key_len \<longrightarrow>
            snd (snd (wcrypto_set_digest_key K mem (Some ctxt) key key_len)) (ctx_key ctxt + i) =
              mem (key + i))"
  using assms by (auto simp: wcrypto_set_digest_key_def memcpy_def)

text \<open>
  With a key buffer at 4096 and a length of 129, the byte at 4096 + 128, the
  first one behind the buffer, changes from 0 to 255.
\<close>

theorem set_key_copies_without_bound_witness:
  "(100 :: addr) \<noteq> 0 \<and> MAX_HMAC_KEY_SIZE \<le> 128 \<and> 128 < unat (129 :: 16 word) \<and>
   key_source (4096 + 128) = 0 \<and>
   snd (snd (wcrypto_set_digest_key example_codes key_source
               (Some (zero_ctx\<lparr>ctx_key := 4096\<rparr>)) 100 129)) (4096 + 128) = 255"
  using set_key_copies_without_bound [where key = 100 and K = example_codes
      and mem = key_source and ctxt = "zero_ctx\<lparr>ctx_key := 4096\<rparr>" and key_len = 129]
  by (auto simp: key_source_def MAX_HMAC_KEY_SIZE_def)

text \<open>
  C10: a session that creation returns for a setup whose mode is not the keyed
  one has a null key pointer, and the allocator plays no part in the result.
  \<^verbatim>\<open>wcrypto_set_digest_key\<close> on such a session, with a key that is not \<^verbatim>\<open>NULL\<close>,
  returns success, records the length and copies the bytes to the addresses from
  0 on, that is through the null pointer.
\<close>

theorem set_key_on_plain_session_writes_at_null:
  assumes "s_mode su \<noteq> WCRYPTO_DIGEST_HMAC"
    and "wcrypto_create_digest_ctx K malloc_ret user_alloc q qv (Some su) = (Some ctx, qv')"
    and "key \<noteq> 0"
  shows "ctx_key ctx = 0 \<and>
         wcrypto_create_digest_ctx K malloc_ret other_alloc q qv (Some su) = (Some ctx, qv') \<and>
         fst (wcrypto_set_digest_key K mem (Some ctx) key key_len) = WD_SUCCESS K \<and>
         fst (snd (wcrypto_set_digest_key K mem (Some ctx) key key_len)) =
           Some (ctx\<lparr>key_bytes := ucast key_len\<rparr>) \<and>
         (\<forall>i < unat key_len.
            snd (snd (wcrypto_set_digest_key K mem (Some ctx) key key_len)) i = mem (key + i))"
proof -
  from assms(1,2) have k: "ctx_key ctx = 0"
    by (auto simp: wcrypto_create_digest_ctx_def Let_def zero_ctx_def split: if_splits)
  from assms(1,2)
  have "wcrypto_create_digest_ctx K malloc_ret other_alloc q qv (Some su) = (Some ctx, qv')"
    by (auto simp: wcrypto_create_digest_ctx_def Let_def split: if_splits)
  then show ?thesis
    using k assms(3) by (auto simp: wcrypto_set_digest_key_def memcpy_def)
qed

lemma plain_session_created:
  "wcrypto_create_digest_ctx example_codes 4096 (\<lambda>usr n. 8192) 1 empty_queue (Some plain_setup) =
     (Some plain_session, empty_queue\<lparr>q_info := \<lparr>ctx_num = 1, q_ops = null_ops\<rparr>\<rparr>)"
  by (simp add: plain_session_def wcrypto_create_digest_ctx_def empty_queue_def plain_setup_def
      null_ops_def Let_def WD_DIGEST_MAX_CTX_def word_sless_alt)

theorem set_key_on_plain_session_writes_at_null_witness:
  "s_mode plain_setup \<noteq> WCRYPTO_DIGEST_HMAC \<and> (100 :: addr) \<noteq> 0 \<and>
   ctx_key plain_session = 0 \<and>
   fst (wcrypto_set_digest_key example_codes key_source (Some plain_session) 100 16) = 0 \<and>
   key_source 5 = 0 \<and>
   snd (snd (wcrypto_set_digest_key example_codes key_source (Some plain_session) 100 16)) 5 = 255"
proof -
  have m: "s_mode plain_setup \<noteq> WCRYPTO_DIGEST_HMAC"
    by (simp add: plain_setup_def)
  have k: "(100 :: addr) \<noteq> 0"
    by simp
  from set_key_on_plain_session_writes_at_null [OF m plain_session_created k,
      where mem = key_source and key_len = 16 and other_alloc = "\<lambda>usr n. 0"]
  show ?thesis
    using m by (simp add: key_source_def example_codes_def)
qed

subsection \<open>Acquiring a cookie\<close>

text \<open>One round of the loop at a position and a count below 64.\<close>

lemma loop_step_free:
  assumes "a < 64" "length cs = 64" "cs ! a = 0"
  shows "get_digest_cookie_loop cs (of_nat a) cnt = Inr (Some (of_nat a), cs[a := 1])"
  using assms
  by (subst get_digest_cookie_loop.simps)
     (simp add: in_pool_def atomic_test_and_set_def sint_of_nat_small)

lemma loop_step_set:
  assumes "a < 64" "c < 64" "length cs = 64" "cs ! a = 1"
  shows "get_digest_cookie_loop cs (of_nat a) (of_nat c) =
           (if Suc c = 64 then Inr (None, cs)
            else get_digest_cookie_loop cs (of_nat (Suc a mod 64)) (of_nat (Suc c)))"
proof -
  have e: "(of_nat n :: 32 word) = 63 \<longleftrightarrow> n = 63" if "n < 64" for n
    using that of_nat_eq_small [of n 63] by simp
  have u: "cs[a := 1] = cs"
    using assms by (simp add: list_update_same)
  have m: "Suc a mod 64 = (if Suc a = 64 then 0 else Suc a)"
    using assms(1) by auto
  show ?thesis
    using assms e [of a] e [of c]
    by (subst get_digest_cookie_loop.simps)
       (simp add: in_pool_def atomic_test_and_set_def sint_of_nat_small u m Let_def
          WD_DIGEST_CTX_MSG_NUM_def add.commute)
qed


lemma loop_finds_first_free:
  assumes len: "length cs = 64" and bits: "\<forall>b \<in> set cs. b = 0 \<or> b = 1"
  shows "a < 64 \<Longrightarrow> c + j < 64 \<Longrightarrow> cs ! ((a + j) mod 64) = 0 \<Longrightarrow>
         \<forall>j' < j. cs ! ((a + j') mod 64) \<noteq> 0 \<Longrightarrow>
         get_digest_cookie_loop cs (of_nat a) (of_nat c) =
           Inr (Some (of_nat ((a + j) mod 64)), cs[(a + j) mod 64 := 1])"
proof (induction j arbitrary: a c)
  case 0
  then show ?case
    using len by (simp add: loop_step_free)
next
  case (Suc j)
  from Suc.prems(4) have "cs ! a \<noteq> 0"
    using Suc.prems(1) by (auto dest: spec [of _ 0])
  moreover have "cs ! a \<in> set cs"
    using len Suc.prems(1) by simp
  ultimately have set: "cs ! a = 1"
    using bits by auto
  have shift: "(Suc a mod 64 + k) mod 64 = (a + Suc k) mod 64" for k
    by (simp add: mod_add_left_eq)
  have "get_digest_cookie_loop cs (of_nat (Suc a mod 64)) (of_nat (Suc c)) =
          Inr (Some (of_nat ((Suc a mod 64 + j) mod 64)), cs[(Suc a mod 64 + j) mod 64 := 1])"
  proof (rule Suc.IH)
    show "Suc a mod 64 < 64" by simp
    show "Suc c + j < 64" using Suc.prems(2) by simp
    show "cs ! ((Suc a mod 64 + j) mod 64) = 0"
      using Suc.prems(3) by (simp only: shift)
    show "\<forall>j'<j. cs ! ((Suc a mod 64 + j') mod 64) \<noteq> 0"
      using Suc.prems(4) by (simp only: shift) auto
  qed
  moreover have "c < 64" "Suc c \<noteq> 64"
    using Suc.prems(2) by auto
  ultimately show ?case
    using loop_step_set [OF Suc.prems(1) \<open>c < 64\<close> len set] by (simp only: shift) simp
qed

lemma loop_finds_none:
  assumes len: "length cs = 64" and full: "\<forall>i < 64. cs ! i = 1"
  shows "a < 64 \<Longrightarrow> c + k = 63 \<Longrightarrow>
         get_digest_cookie_loop cs (of_nat a) (of_nat c) = Inr (None, cs)"
proof (induction k arbitrary: a c)
  case 0
  then show ?case
    using loop_step_set [of a c cs] len full by simp
next
  case (Suc k)
  have "get_digest_cookie_loop cs (of_nat (Suc a mod 64)) (of_nat (Suc c)) = Inr (None, cs)"
    by (rule Suc.IH) (use Suc.prems in auto)
  then show ?case
    using loop_step_set [of a c cs] len full Suc.prems by simp
qed

lemma cyclic_position:
  assumes "a < 64" "i < (64 :: nat)"
  shows "\<exists>j < 64. (a + j) mod 64 = i"
proof (cases "a \<le> i")
  case True
  then have "(a + (i - a)) mod 64 = i" "i - a < 64"
    using assms by auto
  then show ?thesis by blast
next
  case False
  then have "(a + (i + 64 - a)) mod 64 = i" "i + 64 - a < 64"
    using assms by auto
  then show ?thesis by blast
qed

lemma get_digest_cookie_some:
  assumes ok: "pool_ok ctx" and i: "i < 64" "cstatus ctx ! i = 0"
  shows "\<exists>s. s < 64 \<and> cstatus ctx ! unat s = 0 \<and>
             get_digest_cookie ctx =
               Inr (Some s, ctx\<lparr>cstatus := (cstatus ctx)[unat s := 1], cidx := s\<rparr>)"
proof -
  define a where "a = unat (cidx ctx)"
  have a: "a < 64" "cidx ctx = of_nat a"
    using ok by (simp_all add: a_def pool_ok_def word_less_nat_alt)
  from cyclic_position [OF a(1) i(1)] i(2)
  have "\<exists>j. j < 64 \<and> cstatus ctx ! ((a + j) mod 64) = 0"
    by auto
  then obtain j where j: "j < 64 \<and> cstatus ctx ! ((a + j) mod 64) = 0"
    and least: "\<forall>j' < j. \<not> (j' < 64 \<and> cstatus ctx ! ((a + j') mod 64) = 0)"
    using exists_least_iff [of "\<lambda>j. j < 64 \<and> cstatus ctx ! ((a + j) mod 64) = 0"] by blast
  define p where "p = (a + j) mod 64"
  have p: "p < 64" by (simp add: p_def)
  have "get_digest_cookie_loop (cstatus ctx) (of_nat a) (of_nat 0) =
          Inr (Some (of_nat p), (cstatus ctx)[p := 1])"
    unfolding p_def
  proof (rule loop_finds_first_free)
    show "length (cstatus ctx) = 64" "\<forall>b\<in>set (cstatus ctx). b = 0 \<or> b = 1"
      using ok by (simp_all add: pool_ok_def)
    show "a < 64" by (rule a)
    show "0 + j < 64" "cstatus ctx ! ((a + j) mod 64) = 0"
      using j by simp_all
    show "\<forall>j'<j. cstatus ctx ! ((a + j') mod 64) \<noteq> 0"
      using least j by auto
  qed
  moreover have "unat (of_nat p :: 32 word) = p"
    using p by (simp add: unat_of_nat_small)
  moreover have "(of_nat p :: 32 word) < 64"
    using p by (simp add: word_less_nat_alt unat_of_nat_small)
  moreover have "cstatus ctx ! p = 0"
    using j by (simp add: p_def)
  ultimately show ?thesis
    using a(2) by (auto simp: get_digest_cookie_def)
qed

lemma get_digest_cookie_none:
  assumes ok: "pool_ok ctx" and full: "\<forall>i < 64. cstatus ctx ! i \<noteq> 0"
  shows "get_digest_cookie ctx = Inr (None, ctx)"
proof -
  define a where "a = unat (cidx ctx)"
  have a: "a < 64" "cidx ctx = of_nat a"
    using ok by (simp_all add: a_def pool_ok_def word_less_nat_alt)
  have len: "length (cstatus ctx) = 64"
    using ok by (simp add: pool_ok_def)
  have "\<forall>i < 64. cstatus ctx ! i = 1"
  proof (intro allI impI)
    fix i :: nat
    assume "i < 64"
    then have "cstatus ctx ! i \<in> set (cstatus ctx)" "cstatus ctx ! i \<noteq> 0"
      using len full by simp_all
    then show "cstatus ctx ! i = 1"
      using ok by (auto simp: pool_ok_def)
  qed
  with len a(1) have "get_digest_cookie_loop (cstatus ctx) (of_nat a) (of_nat 0) =
      Inr (None, cstatus ctx)"
    by (intro loop_finds_none) auto
  then show ?thesis
    using a(2) by (simp add: get_digest_cookie_def)
qed


lemma free_slots_claim:
  "i < length cs \<Longrightarrow> cs ! i = 0 \<Longrightarrow> Suc (free_slots (cs[i := 1])) = free_slots cs"
proof (induction cs arbitrary: i)
  case Nil
  then show ?case by simp
next
  case (Cons b cs)
  then show ?case
    by (cases i) (auto simp: free_slots_def)
qed

lemma free_slots_pos:
  assumes "0 < free_slots cs"
  shows "\<exists>i < length cs. cs ! i = 0"
proof -
  from assms have "filter (\<lambda>b. b = 0) cs \<noteq> []"
    by (auto simp: free_slots_def)
  then have "\<exists>b \<in> set cs. b = 0"
    by (simp add: filter_empty_conv)
  then show ?thesis
    by (auto simp: in_set_conv_nth)
qed

lemma free_slots_none:
  assumes "free_slots cs = 0" "i < length cs"
  shows "cs ! i \<noteq> 0"
proof -
  from assms(1) have "filter (\<lambda>b. b = 0) cs = []"
    by (simp add: free_slots_def)
  then have "\<forall>b \<in> set cs. b \<noteq> 0"
    by (simp add: filter_empty_conv)
  with assms(2) show ?thesis
    by simp
qed

lemma pool_ok_claim:
  assumes "pool_ok ctx" "s < 64"
  shows "pool_ok (ctx\<lparr>cstatus := (cstatus ctx)[unat s := 1], cidx := s\<rparr>)"
proof -
  have "set ((cstatus ctx)[unat s := 1]) \<subseteq> insert 1 (set (cstatus ctx))"
    by (rule set_update_subset_insert)
  then show ?thesis
    using assms by (auto simp: pool_ok_def)
qed

lemma acquire_all_spec:
  "pool_ok ctx \<Longrightarrow> n \<le> free_slots (cstatus ctx) \<Longrightarrow>
   \<exists>slots ctx'.
     acquire_all n ctx = Inr (map Some slots, ctx') \<and> length slots = n \<and> distinct slots \<and>
     (\<forall>s \<in> set slots. s < 64 \<and> cstatus ctx ! unat s = 0 \<and> cstatus ctx' ! unat s = 1) \<and>
     pool_ok ctx' \<and> free_slots (cstatus ctx') + n = free_slots (cstatus ctx) \<and>
     (\<forall>i < 64. cstatus ctx ! i \<noteq> 0 \<longrightarrow> cstatus ctx' ! i = cstatus ctx ! i)"
proof (induction n arbitrary: ctx)
  case 0
  then show ?case by simp
next
  case (Suc n)
  have len: "length (cstatus ctx) = 64"
    using Suc.prems(1) by (simp add: pool_ok_def)
  from Suc.prems(2) have "0 < free_slots (cstatus ctx)"
    by simp
  then obtain i where "i < 64" "cstatus ctx ! i = 0"
    using free_slots_pos len by metis
  then obtain s where s: "s < 64" "cstatus ctx ! unat s = 0"
    and get: "get_digest_cookie ctx =
                Inr (Some s, ctx\<lparr>cstatus := (cstatus ctx)[unat s := 1], cidx := s\<rparr>)"
    using get_digest_cookie_some [OF Suc.prems(1)] by blast
  define ctx1 where "ctx1 = ctx\<lparr>cstatus := (cstatus ctx)[unat s := 1], cidx := s\<rparr>"
  have us: "unat s < 64"
    using s(1) by (simp add: word_less_nat_alt)
  have cs1: "cstatus ctx1 = (cstatus ctx)[unat s := 1]"
    by (simp add: ctx1_def)
  have ok1: "pool_ok ctx1"
    unfolding ctx1_def by (rule pool_ok_claim [OF Suc.prems(1) s(1)])
  have free1: "Suc (free_slots (cstatus ctx1)) = free_slots (cstatus ctx)"
    using free_slots_claim [of "unat s" "cstatus ctx"] us len s(2) by (simp add: cs1)
  then have "n \<le> free_slots (cstatus ctx1)"
    using Suc.prems(2) by simp
  from Suc.IH [OF ok1 this] obtain slots ctx' where
    run: "acquire_all n ctx1 = Inr (map Some slots, ctx')" and
    props: "length slots = n" "distinct slots"
      "\<forall>s' \<in> set slots. s' < 64 \<and> cstatus ctx1 ! unat s' = 0 \<and> cstatus ctx' ! unat s' = 1"
      "pool_ok ctx'" "free_slots (cstatus ctx') + n = free_slots (cstatus ctx1)"
      "\<forall>i < 64. cstatus ctx1 ! i \<noteq> 0 \<longrightarrow> cstatus ctx' ! i = cstatus ctx1 ! i"
    by blast
  have at_s: "cstatus ctx1 ! unat s = 1"
    using us len by (simp add: cs1)
  have fresh: "s \<notin> set slots"
    using props(3) at_s by auto
  have old: "cstatus ctx ! unat s' = 0" if "s' \<in> set slots" for s'
  proof -
    from that props(3) have z: "cstatus ctx1 ! unat s' = 0"
      by simp
    with at_s have "unat s' \<noteq> unat s"
      by auto
    with z show ?thesis
      by (simp add: cs1)
  qed
  have kept: "cstatus ctx' ! i = cstatus ctx ! i" if "i < 64" "cstatus ctx ! i \<noteq> 0" for i
  proof -
    from that s(2) have "i \<noteq> unat s"
      by auto
    then have "cstatus ctx1 ! i = cstatus ctx ! i"
      by (simp add: cs1)
    with that props(6) show ?thesis
      by simp
  qed
  have "cstatus ctx' ! unat s = 1"
    using props(6) us at_s by simp
  moreover have "acquire_all (Suc n) ctx = Inr (map Some (s # slots), ctx')"
    using get run by (simp add: ctx1_def)
  ultimately show ?case
    using props fresh s old kept free1
    by (intro exI [of _ "s # slots"] exI [of _ ctx']) auto
qed

lemma do_digest_busy:
  assumes "get_digest_cookie ctx = Inr (None, ctx')"
  shows "wcrypto_do_digest K T (Some ctx) hw (Some op) tag =
           Inr (- WD_EBUSY K, Some ctx', hw, Some op)"
  using assms by (simp add: wcrypto_do_digest_def)

text \<open>
  C4: on a session whose 64 slots are all free, \<open>N \<le> 64\<close> acquisitions in a row
  all return a slot, and the slots are pairwise distinct positions of the pool.
  After 64 of them the next acquisition returns no slot, and
  \<^verbatim>\<open>wcrypto_do_digest\<close> returns \<^verbatim>\<open>-WD_EBUSY\<close> at once: the session and the queue
  are as before, no request is sent and nothing is received.
\<close>

theorem acquire_distinct_then_busy:
  assumes "cstatus ctx = replicate 64 0" and "length (cookies ctx) = 64" and "cidx ctx < 64"
    and "N \<le> 64"
  shows "\<exists>slots ctx'.
           acquire_all N ctx = Inr (map Some slots, ctx') \<and>
           length slots = N \<and> distinct slots \<and> (\<forall>s \<in> set slots. s < 64) \<and>
           (N = 64 \<longrightarrow>
              get_digest_cookie ctx' = Inr (None, ctx') \<and>
              (\<forall>K T hw op tag.
                 wcrypto_do_digest K (T :: 't transport) (Some ctx') hw (Some op) tag =
                   Inr (- WD_EBUSY K, Some ctx', hw, Some op)))"
proof -
  have ok: "pool_ok ctx"
    using assms by (simp add: pool_ok_def)
  have free: "free_slots (cstatus ctx) = 64"
    using assms(1) by (simp add: free_slots_def)
  with assms(4) have "N \<le> free_slots (cstatus ctx)"
    by simp
  from acquire_all_spec [OF ok this] obtain slots ctx' where
    run: "acquire_all N ctx = Inr (map Some slots, ctx')" and
    props: "length slots = N" "distinct slots" "\<forall>s \<in> set slots. s < 64"
      "pool_ok ctx'" "free_slots (cstatus ctx') + N = free_slots (cstatus ctx)"
    by blast
  have busy: "get_digest_cookie ctx' = Inr (None, ctx')" if "N = 64"
  proof (rule get_digest_cookie_none [OF props(4)])
    from that props(5) free have "free_slots (cstatus ctx') = 0"
      by simp
    moreover have "length (cstatus ctx') = 64"
      using props(4) by (simp add: pool_ok_def)
    ultimately show "\<forall>i<64. cstatus ctx' ! i \<noteq> 0"
      using free_slots_none by metis
  qed
  have "N = 64 \<longrightarrow>
          get_digest_cookie ctx' = Inr (None, ctx') \<and>
          (\<forall>K T hw op tag.
             wcrypto_do_digest K (T :: 't transport) (Some ctx') hw (Some op) tag =
               Inr (- WD_EBUSY K, Some ctx', hw, Some op))"
    using busy by (simp add: do_digest_busy)
  with run props(1-3) show ?thesis
    by (intro exI [of _ slots] exI [of _ ctx']) simp
qed


theorem acquire_distinct_then_busy_witness:
  "cstatus zero_ctx = replicate 64 0 \<and> length (cookies zero_ctx) = 64 \<and> cidx zero_ctx < 64 \<and>
   (\<exists>slots ctx'.
      acquire_all 64 zero_ctx = Inr (map Some slots, ctx') \<and>
      length slots = 64 \<and> distinct slots \<and> (\<forall>s \<in> set slots. s < 64) \<and>
      get_digest_cookie ctx' = Inr (None, ctx') \<and>
      (\<forall>K T hw op tag.
         wcrypto_do_digest K (T :: unit transport) (Some ctx') hw (Some op) tag =
           Inr (- WD_EBUSY K, Some ctx', hw, Some op)))"
proof -
  have h: "cstatus zero_ctx = replicate 64 0" "length (cookies zero_ctx) = 64"
    "cidx zero_ctx < 64" "(64 :: nat) \<le> 64"
    by (simp_all add: zero_ctx_def WD_DIGEST_CTX_MSG_NUM_def)
  from acquire_distinct_then_busy [OF h, where ?'t = unit] h show ?thesis
    by simp
qed

subsection \<open>Submitting a request\<close>

lemma put_digest_cookie_slot:
  assumes "s < 64"
  shows "put_digest_cookie ctx s = (Silent, ctx\<lparr>cstatus := (cstatus ctx)[unat s := 0]\<rparr>)"
  using sint_slot [OF assms]
  by (simp add: put_digest_cookie_def atomic_clear_def WD_DIGEST_CTX_MSG_NUM_def
      word_sless_alt word_sle_eq)

lemma fail_with_cookie_slot:
  assumes "s < 64"
  shows "fail_with_cookie ret ctx s hw op =
           (ret, Some (ctx\<lparr>cstatus := (cstatus ctx)[unat s := 0]\<rparr>), hw, Some op)"
  by (simp add: fail_with_cookie_def put_digest_cookie_slot [OF assms])

lemma io_bytes_cookies_commute:
  "r\<lparr>io_bytes := a, cookies := b\<rparr> = r\<lparr>cookies := b, io_bytes := a\<rparr>"
  by simp

text \<open>
  The part of \<^verbatim>\<open>wcrypto_do_digest\<close> from the acquisition to line 214 leaves a
  context \<open>cS\<close>, and the rest of the call depends on the transport.
\<close>

lemma do_digest_prepared:
  assumes K: "WD_SUCCESS K = 0" and ok: "pool_ok ctx" and free: "0 < free_slots (cstatus ctx)"
    and cb: "tag = 0 \<or> s_cb (ctx_setup ctx) \<noteq> 0"
  shows "\<exists>s cS.
           s < 64 \<and> cstatus ctx ! unat s = 0 \<and>
           cstatus cS = (cstatus ctx)[unat s := 1] \<and> cidx cS = s \<and>
           length (cookies cS) = 64 \<and> ctx_setup cS = ctx_setup ctx \<and> ctx_id cS = ctx_id ctx \<and>
           io_bytes cS = (if op_has_next op then io_bytes ctx + ucast (op_in_bytes op) else 0) \<and>
           (\<not> op_has_next op \<longrightarrow>
              long_data_len (c_tag (cookie_at cS s)) = io_bytes ctx + ucast (op_in_bytes op)) \<and>
           wcrypto_do_digest K T (Some ctx) hw (Some op) tag =
             (case wd_send T hw (c_msg (cookie_at cS s)) of
                (ret1, hw1) \<Rightarrow>
                  if ret1 \<noteq> 0 then Inr (fail_with_cookie ret1 cS s hw1 op)
                  else if tag \<noteq> 0 then Inr (ret1, Some cS, hw1, Some op)
                  else
                    (case recv_again T hw1 (Token (ctx_id cS)) 0 of
                       (True, ret2, resp, hw2) \<Rightarrow>
                         Inr (fail_with_cookie (- WD_ETIMEDOUT K) cS s hw2 op)
                     | (False, ret2, resp, hw2) \<Rightarrow>
                         if ret2 <s 0 then Inr (fail_with_cookie ret2 cS s hw2 op)
                         else
                           (case resp of
                              Token t \<Rightarrow> Inl BadPointer
                            | Reply r \<Rightarrow>
                                Inr (fail_with_cookie (WD_SUCCESS K) cS s hw2
                                       (op\<lparr>op_out := m_out r, op_out_bytes := m_out_bytes r,
                                           op_status := m_result r\<rparr>)))))"
proof -
  have len: "length (cstatus ctx) = 64" "length (cookies ctx) = 64"
    using ok by (simp_all add: pool_ok_def)
  from free obtain i where "i < 64" "cstatus ctx ! i = 0"
    using free_slots_pos len by metis
  then obtain s where s: "s < 64" "cstatus ctx ! unat s = 0"
    and get: "get_digest_cookie ctx =
                Inr (Some s, ctx\<lparr>cstatus := (cstatus ctx)[unat s := 1], cidx := s\<rparr>)"
    using get_digest_cookie_some [OF ok] by blast
  have us: "unat s < 64" "nat (sint s) = unat s"
    using s(1) sint_slot(2) by (simp_all add: word_less_nat_alt)
  define k0 where "k0 = cookies ctx ! unat s"
  define k1 where "k1 = (if tag \<noteq> 0
      then k0\<lparr>c_tag := (c_tag k0)\<lparr>wcrypto_tag := (wcrypto_tag (c_tag k0))\<lparr>t_tag := tag\<rparr>\<rparr>\<rparr>
      else k0)"
  define req where "req = (c_msg k1)\<lparr>m_has_next := op_has_next op, m_key := ctx_key ctx,
      m_key_bytes := key_bytes ctx, m_in := op_in op, m_in_bytes := op_in_bytes op,
      m_out := op_out op, m_out_bytes := op_out_bytes op\<rparr>"
  define acc where "acc = io_bytes ctx + ucast (op_in_bytes op)"
  define k3 where "k3 = (if \<not> op_has_next op
      then k1\<lparr>c_msg := req, c_tag := (c_tag k1)\<lparr>long_data_len := acc\<rparr>\<rparr>
      else k1\<lparr>c_msg := req\<rparr>)"
  define cS where "cS = ctx\<lparr>cstatus := (cstatus ctx)[unat s := 1], cidx := s,
      cookies := (cookies ctx)[unat s := k3],
      io_bytes := (if op_has_next op then acc else 0)\<rparr>"
  have msg: "c_msg (cookie_at cS s) = req"
    using us len by (simp add: cS_def cookie_at_def k3_def)
  have run: "wcrypto_do_digest K T (Some ctx) hw (Some op) tag =
             (case wd_send T hw req of
                (ret1, hw1) \<Rightarrow>
                  if ret1 \<noteq> 0 then Inr (fail_with_cookie ret1 cS s hw1 op)
                  else if tag \<noteq> 0 then Inr (ret1, Some cS, hw1, Some op)
                  else
                    (case recv_again T hw1 (Token (ctx_id cS)) 0 of
                       (True, ret2, resp, hw2) \<Rightarrow>
                         Inr (fail_with_cookie (- WD_ETIMEDOUT K) cS s hw2 op)
                     | (False, ret2, resp, hw2) \<Rightarrow>
                         if ret2 <s 0 then Inr (fail_with_cookie ret2 cS s hw2 op)
                         else
                           (case resp of
                              Token t \<Rightarrow> Inl BadPointer
                            | Reply r \<Rightarrow>
                                Inr (fail_with_cookie (WD_SUCCESS K) cS s hw2
                                       (op\<lparr>op_out := m_out r, op_out_bytes := m_out_bytes r,
                                           op_status := m_result r\<rparr>)))))"
    using cb us len
    by (cases "op_has_next op"; cases "tag = 0")
       (simp_all add: wcrypto_do_digest_def get Let_def digest_request_init_def K
          cookie_at_def set_cookie_def cS_def k3_def k1_def k0_def req_def acc_def
          io_bytes_cookies_commute
          split: prod.split bool.split resp_ptr.split cong: if_cong)
  have "long_data_len (c_tag (cookie_at cS s)) = acc" if "\<not> op_has_next op"
    using that us len by (simp add: cS_def cookie_at_def k3_def)
  then show ?thesis
    using s us len run
    by (intro exI [of _ s] exI [of _ cS]) (simp add: msg, simp add: cS_def acc_def)
qed


lemma do_digest_effect:
  assumes K: "WD_SUCCESS K = 0" and ok: "pool_ok ctx" and free: "0 < free_slots (cstatus ctx)"
    and cb: "tag = 0 \<or> s_cb (ctx_setup ctx) \<noteq> 0"
    and res: "wcrypto_do_digest K T (Some ctx) hw (Some op) tag = Inr (ret, Some c', hw', o')"
  shows "io_bytes c' = (if op_has_next op then io_bytes ctx + ucast (op_in_bytes op) else 0)"
    and "\<not> op_has_next op \<Longrightarrow>
           long_data_len (c_tag (cookie_at c' (cidx c'))) = io_bytes ctx + ucast (op_in_bytes op)"
    and "pool_ok c'"
    and "free_slots (cstatus ctx) \<le> Suc (free_slots (cstatus c'))"
    and "ctx_setup c' = ctx_setup ctx"
proof -
  from do_digest_prepared [OF K ok free cb, of op T hw]
  obtain s cS where s: "s < 64" "cstatus ctx ! unat s = 0"
    and cS: "cstatus cS = (cstatus ctx)[unat s := 1]" "cidx cS = s"
      "length (cookies cS) = 64" "ctx_setup cS = ctx_setup ctx"
      "io_bytes cS = (if op_has_next op then io_bytes ctx + ucast (op_in_bytes op) else 0)"
      "\<not> op_has_next op \<longrightarrow>
         long_data_len (c_tag (cookie_at cS s)) = io_bytes ctx + ucast (op_in_bytes op)"
    and run: "wcrypto_do_digest K T (Some ctx) hw (Some op) tag =
             (case wd_send T hw (c_msg (cookie_at cS s)) of
                (ret1, hw1) \<Rightarrow>
                  if ret1 \<noteq> 0 then Inr (fail_with_cookie ret1 cS s hw1 op)
                  else if tag \<noteq> 0 then Inr (ret1, Some cS, hw1, Some op)
                  else
                    (case recv_again T hw1 (Token (ctx_id cS)) 0 of
                       (True, ret2, resp, hw2) \<Rightarrow>
                         Inr (fail_with_cookie (- WD_ETIMEDOUT K) cS s hw2 op)
                     | (False, ret2, resp, hw2) \<Rightarrow>
                         if ret2 <s 0 then Inr (fail_with_cookie ret2 cS s hw2 op)
                         else
                           (case resp of
                              Token t \<Rightarrow> Inl BadPointer
                            | Reply r \<Rightarrow>
                                Inr (fail_with_cookie (WD_SUCCESS K) cS s hw2
                                       (op\<lparr>op_out := m_out r, op_out_bytes := m_out_bytes r,
                                           op_status := m_result r\<rparr>)))))"
    by blast
  have len: "length (cstatus ctx) = 64"
    using ok by (simp add: pool_ok_def)
  have us: "unat s < 64"
    using s(1) by (simp add: word_less_nat_alt)
  define cR where "cR = cS\<lparr>cstatus := (cstatus cS)[unat s := 0]\<rparr>"
  have which: "c' = cS \<or> c' = cR"
    using res unfolding run cR_def
    by (auto simp: fail_with_cookie_slot [OF s(1)]
        split: prod.splits if_splits bool.splits resp_ptr.splits)
  have restored: "cstatus cR = cstatus ctx"
    using s(2) by (simp add: cR_def cS(1) list_update_same)
  have "pool_ok cS"
    using pool_ok_claim [OF ok s(1)] cS by (simp add: pool_ok_def)
  moreover have "pool_ok cR"
    using ok cS restored s(1) by (simp add: pool_ok_def cR_def)
  ultimately show "pool_ok c'"
    using which by auto
  have "Suc (free_slots (cstatus cS)) = free_slots (cstatus ctx)"
    using free_slots_claim [of "unat s" "cstatus ctx"] us len s(2) by (simp add: cS(1))
  then show "free_slots (cstatus ctx) \<le> Suc (free_slots (cstatus c'))"
    using which restored by auto
  show "io_bytes c' = (if op_has_next op then io_bytes ctx + ucast (op_in_bytes op) else 0)"
    using which cS(5) by (auto simp: cR_def)
  show "ctx_setup c' = ctx_setup ctx"
    using which cS(4) by (auto simp: cR_def)
  show "long_data_len (c_tag (cookie_at c' (cidx c'))) = io_bytes ctx + ucast (op_in_bytes op)"
    if "\<not> op_has_next op"
    using which cS(2,6) that by (auto simp: cR_def cookie_at_def)
qed

lemma unat_sum_of_three:
  fixes a b c :: "32 word"
  shows "unat (ucast a + ucast b + ucast c :: 64 word) = unat a + unat b + unat c"
proof -
  have "unat a < 2 ^ 32" "unat b < 2 ^ 32" "unat c < 2 ^ 32"
    using unsigned_less [of a] unsigned_less [of b] unsigned_less [of c] by simp_all
  then show ?thesis
    by (simp add: unat_word_ariths unsigned_ucast_eq take_bit_nat_eq_self)
qed

text \<open>
  C5: three calls of \<^verbatim>\<open>wcrypto_do_digest\<close> on one session, each on the state that
  the call before left, with the has-more flags true, true, false and an
  accumulator that starts at 0. Each call finds a free slot and, when it has a
  tag, a callback. Then the cookie of the third call, at the position that
  \<^verbatim>\<open>cidx\<close> holds after it, records the sum of the three input lengths (as
  64-bit value, and without wrap-around, since each length has 32 bits), the
  accumulator holds the partial sums after the first two calls, and it is 0 after
  the third. This holds whatever the transport answers.
\<close>

theorem streaming_total_recorded_at_terminal_segment:
  assumes K: "WD_SUCCESS K = 0"
    and ok: "pool_ok c0" and free: "3 \<le> free_slots (cstatus c0)"
    and zero: "io_bytes c0 = 0"
    and cb: "(tag1 = 0 \<and> tag2 = 0 \<and> tag3 = 0) \<or> s_cb (ctx_setup c0) \<noteq> 0"
    and more: "op_has_next op1" "op_has_next op2" "\<not> op_has_next op3"
    and r1: "wcrypto_do_digest K T (Some c0) hw0 (Some op1) tag1 = Inr (ret1, Some c1, hw1, o1)"
    and r2: "wcrypto_do_digest K T (Some c1) hw1 (Some op2) tag2 = Inr (ret2, Some c2, hw2, o2)"
    and r3: "wcrypto_do_digest K T (Some c2) hw2 (Some op3) tag3 = Inr (ret3, Some c3, hw3, o3)"
  shows "long_data_len (c_tag (cookie_at c3 (cidx c3))) =
           ucast (op_in_bytes op1) + ucast (op_in_bytes op2) + ucast (op_in_bytes op3) \<and>
         unat (long_data_len (c_tag (cookie_at c3 (cidx c3)))) =
           unat (op_in_bytes op1) + unat (op_in_bytes op2) + unat (op_in_bytes op3) \<and>
         io_bytes c1 = ucast (op_in_bytes op1) \<and>
         io_bytes c2 = ucast (op_in_bytes op1) + ucast (op_in_bytes op2) \<and>
         io_bytes c3 = 0"
proof -
  have f0: "0 < free_slots (cstatus c0)" and cb0: "tag1 = 0 \<or> s_cb (ctx_setup c0) \<noteq> 0"
    using free cb by auto
  note e1 = do_digest_effect [OF K ok f0 cb0 r1]
  have f1: "0 < free_slots (cstatus c1)" and cb1: "tag2 = 0 \<or> s_cb (ctx_setup c1) \<noteq> 0"
    using free cb e1(4,5) by auto
  note e2 = do_digest_effect [OF K e1(3) f1 cb1 r2]
  have f2: "0 < free_slots (cstatus c2)" and cb2: "tag3 = 0 \<or> s_cb (ctx_setup c2) \<noteq> 0"
    using free cb e1(4,5) e2(4,5) by auto
  note e3 = do_digest_effect [OF K e2(3) f2 cb2 r3]
  have a1: "io_bytes c1 = ucast (op_in_bytes op1)"
    using e1(1) more(1) zero by simp
  have a2: "io_bytes c2 = ucast (op_in_bytes op1) + ucast (op_in_bytes op2)"
    using e2(1) more(2) a1 by simp
  have a3: "long_data_len (c_tag (cookie_at c3 (cidx c3))) =
              ucast (op_in_bytes op1) + ucast (op_in_bytes op2) + ucast (op_in_bytes op3)"
    using e3(2) more(3) a2 by simp
  have "io_bytes c3 = 0"
    using e3(1) more(3) by simp
  with a1 a2 a3 show ?thesis
    by (simp add: unat_sum_of_three)
qed


lemma async_session_ok:
  "pool_ok async_session" "free_slots (cstatus async_session) = 64"
  "io_bytes async_session = 0" "s_cb (ctx_setup async_session) \<noteq> 0"
  by (simp_all add: async_session_def zero_ctx_def pool_ok_def free_slots_def plain_setup_def
      WD_DIGEST_CTX_MSG_NUM_def)

lemma do_digest_async_returns:
  assumes K: "WD_SUCCESS K = 0" and ok: "pool_ok ctx" and free: "0 < free_slots (cstatus ctx)"
    and cb: "s_cb (ctx_setup ctx) \<noteq> 0" and tag: "tag \<noteq> 0"
  shows "\<exists>c'. wcrypto_do_digest K silent_transport (Some ctx) hw (Some op) tag =
                Inr (0, Some c', hw, Some op)"
proof -
  from cb have "tag = 0 \<or> s_cb (ctx_setup ctx) \<noteq> 0"
    by simp
  from do_digest_prepared [OF K ok free this, of op silent_transport hw] tag show ?thesis
    by (auto simp: silent_transport_def)
qed

theorem streaming_total_recorded_at_terminal_segment_witness:
  "\<exists>c1 c2 c3.
     wcrypto_do_digest example_codes silent_transport (Some async_session) 0
       (Some (segment 10 True)) 5 = Inr (0, Some c1, 0, Some (segment 10 True)) \<and>
     wcrypto_do_digest example_codes silent_transport (Some c1) 0
       (Some (segment 20 True)) 5 = Inr (0, Some c2, 0, Some (segment 20 True)) \<and>
     wcrypto_do_digest example_codes silent_transport (Some c2) 0
       (Some (segment 30 False)) 5 = Inr (0, Some c3, 0, Some (segment 30 False)) \<and>
     long_data_len (c_tag (cookie_at c3 (cidx c3))) = 60 \<and> io_bytes c3 = 0"
proof -
  have K: "WD_SUCCESS example_codes = 0"
    by (simp add: example_codes_def)
  have tag: "(5 :: addr) \<noteq> 0"
    by simp
  have cb: "tag = 0 \<or> s_cb (ctx_setup async_session) \<noteq> 0" for tag :: addr
    using async_session_ok(4) by simp
  have f0: "0 < free_slots (cstatus async_session)" "3 \<le> free_slots (cstatus async_session)"
    by (simp_all add: async_session_ok(2))
  from do_digest_async_returns [OF K async_session_ok(1) f0(1) async_session_ok(4) tag]
  obtain c1 where r1: "wcrypto_do_digest example_codes silent_transport (Some async_session) 0
       (Some (segment 10 True)) 5 = Inr (0, Some c1, 0, Some (segment 10 True))"
    by blast
  note e1 = do_digest_effect [OF K async_session_ok(1) f0(1) cb r1]
  have f1: "0 < free_slots (cstatus c1)" and cb1: "s_cb (ctx_setup c1) \<noteq> 0"
    using e1(4,5) async_session_ok(2,4) by simp_all
  from do_digest_async_returns [OF K e1(3) f1 cb1 tag]
  obtain c2 where r2: "wcrypto_do_digest example_codes silent_transport (Some c1) 0
       (Some (segment 20 True)) 5 = Inr (0, Some c2, 0, Some (segment 20 True))"
    by blast
  have cb1': "(5 :: addr) = 0 \<or> s_cb (ctx_setup c1) \<noteq> 0"
    using cb1 by simp
  note e2 = do_digest_effect [OF K e1(3) f1 cb1' r2]
  have f2: "0 < free_slots (cstatus c2)" and cb2: "s_cb (ctx_setup c2) \<noteq> 0"
    using e1(4,5) e2(4,5) async_session_ok(2,4) by simp_all
  from do_digest_async_returns [OF K e2(3) f2 cb2 tag]
  obtain c3 where r3: "wcrypto_do_digest example_codes silent_transport (Some c2) 0
       (Some (segment 30 False)) 5 = Inr (0, Some c3, 0, Some (segment 30 False))"
    by blast
  have flags: "op_has_next (segment 10 True)" "op_has_next (segment 20 True)"
    "\<not> op_has_next (segment 30 False)"
    by (simp_all add: segment_def)
  have cbs: "((5 :: addr) = 0 \<and> (5 :: addr) = 0 \<and> (5 :: addr) = 0) \<or>
             s_cb (ctx_setup async_session) \<noteq> 0"
    using async_session_ok(4) by simp
  from streaming_total_recorded_at_terminal_segment
    [OF K async_session_ok(1) f0(2) async_session_ok(3) cbs flags r1 r2 r3]
  have "long_data_len (c_tag (cookie_at c3 (cidx c3))) = 60 \<and> io_bytes c3 = 0"
    by (simp add: segment_def)
  with r1 r2 r3 show ?thesis
    by blast
qed

lemma retry_count:
  assumes "n \<le> 20000000"
  shows "MAX_DIGEST_RETRY_CNT < (of_nat n :: 64 word) + 1 \<longleftrightarrow> n = 20000000"
proof -
  have "unat (of_nat (Suc n) :: 64 word) = Suc n"
    using assms by (simp add: unat_of_nat del: of_nat_Suc)
  moreover have "(of_nat n :: 64 word) + 1 = of_nat (Suc n)"
    by simp
  ultimately show ?thesis
    using assms by (simp add: MAX_DIGEST_RETRY_CNT_def word_less_nat_alt del: of_nat_Suc) auto
qed

lemma recv_again_never_ready:
  assumes silent: "\<forall>hw resp. fst (wd_recv T hw resp) = 0"
  shows "n + k = 20000000 \<Longrightarrow>
         recv_again T hw resp (of_nat n) =
           (True, 0, (recv_step T ^^ Suc k) (resp, hw))"
proof (induction k arbitrary: n hw resp)
  case 0
  then have n: "n = 20000000" by simp
  obtain ret resp1 hw1 where r: "wd_recv T hw resp = (ret, resp1, hw1)"
    by (cases "wd_recv T hw resp")
  with silent [rule_format, of hw resp] have "ret = 0" by simp
  with r show ?case
    using retry_count [of n] n
    by (subst recv_again.simps) (simp add: recv_step_def del: of_nat_numeral)
next
  case (Suc k)
  then have n: "n < 20000000" "Suc n + k = 20000000" by simp_all
  obtain ret resp1 hw1 where r: "wd_recv T hw resp = (ret, resp1, hw1)"
    by (cases "wd_recv T hw resp")
  with silent [rule_format, of hw resp] have z: "ret = 0" by simp
  have "recv_again T hw resp (of_nat n) = recv_again T hw1 resp1 (of_nat (Suc n))"
    using retry_count [of n] n(1) r z
    by (subst recv_again.simps) (simp add: add.commute)
  also have "\<dots> = (True, 0, (recv_step T ^^ Suc k) (resp1, hw1))"
    by (rule Suc.IH [OF n(2)])
  also have "(recv_step T ^^ Suc k) (resp1, hw1) = (recv_step T ^^ Suc (Suc k)) (resp, hw)"
    using r by (simp add: recv_step_def funpow_swap1)
  finally show ?case .
qed


text \<open>
  C6: a call without tag, on a session with a free slot, against a transport that
  accepts the request and whose \<^verbatim>\<open>wd_recv\<close> always returns 0. The call returns
  \<^verbatim>\<open>-WD_ETIMEDOUT\<close>; the queue is in the state that 20000001 calls of \<^verbatim>\<open>wd_recv\<close>
  after the send leave, that is one call more than the ceiling of 20000000; the
  status bytes are as before the call, so the slot is free again, and the next
  acquisition on the session returns a slot.
\<close>

theorem sync_timeout_releases_slot:
  assumes K: "WD_SUCCESS K = 0"
    and ok: "pool_ok ctx" and free: "0 < free_slots (cstatus ctx)"
    and send: "\<forall>hw req. fst (wd_send T hw req) = 0"
    and silent: "\<forall>hw resp. fst (wd_recv T hw resp) = 0"
  shows "\<exists>c' req s c''.
           wcrypto_do_digest K T (Some ctx) hw (Some op) 0 =
             Inr (- WD_ETIMEDOUT K, Some c',
                  snd ((recv_step T ^^ Suc (unat MAX_DIGEST_RETRY_CNT))
                         (Token (ctx_id ctx), snd (wd_send T hw req))),
                  Some op) \<and>
           cstatus c' = cstatus ctx \<and>
           get_digest_cookie c' = Inr (Some s, c'')"
proof -
  have "(0 :: addr) = 0 \<or> s_cb (ctx_setup ctx) \<noteq> 0"
    by simp
  from do_digest_prepared [OF K ok free this, of op T hw]
  obtain s cS where s: "s < 64" "cstatus ctx ! unat s = 0"
    and cS: "cstatus cS = (cstatus ctx)[unat s := 1]" "cidx cS = s"
      "length (cookies cS) = 64" "ctx_id cS = ctx_id ctx"
    and run: "wcrypto_do_digest K T (Some ctx) hw (Some op) 0 =
             (case wd_send T hw (c_msg (cookie_at cS s)) of
                (ret1, hw1) \<Rightarrow>
                  if ret1 \<noteq> 0 then Inr (fail_with_cookie ret1 cS s hw1 op)
                  else if (0 :: addr) \<noteq> 0 then Inr (ret1, Some cS, hw1, Some op)
                  else
                    (case recv_again T hw1 (Token (ctx_id cS)) 0 of
                       (True, ret2, resp, hw2) \<Rightarrow>
                         Inr (fail_with_cookie (- WD_ETIMEDOUT K) cS s hw2 op)
                     | (False, ret2, resp, hw2) \<Rightarrow>
                         if ret2 <s 0 then Inr (fail_with_cookie ret2 cS s hw2 op)
                         else
                           (case resp of
                              Token t \<Rightarrow> Inl BadPointer
                            | Reply r \<Rightarrow>
                                Inr (fail_with_cookie (WD_SUCCESS K) cS s hw2
                                       (op\<lparr>op_out := m_out r, op_out_bytes := m_out_bytes r,
                                           op_status := m_result r\<rparr>)))))"
    by blast
  define req where "req = c_msg (cookie_at cS s)"
  define hw1 where "hw1 = snd (wd_send T hw req)"
  define cR where "cR = cS\<lparr>cstatus := (cstatus cS)[unat s := 0]\<rparr>"
  have sent: "wd_send T hw req = (0, hw1)"
    using send [rule_format, of hw req] by (cases "wd_send T hw req") (simp add: hw1_def)
  have "recv_again T hw1 (Token (ctx_id ctx)) (of_nat 0) =
          (True, 0, (recv_step T ^^ Suc 20000000) (Token (ctx_id ctx), hw1))"
    by (rule recv_again_never_ready [OF silent]) simp
  then have loop: "recv_again T hw1 (Token (ctx_id ctx)) 0 =
      (True, 0, fst ((recv_step T ^^ Suc 20000000) (Token (ctx_id ctx), hw1)),
       snd ((recv_step T ^^ Suc 20000000) (Token (ctx_id ctx), hw1)))"
    by simp
  have result: "wcrypto_do_digest K T (Some ctx) hw (Some op) 0 =
      Inr (- WD_ETIMEDOUT K, Some cR,
           snd ((recv_step T ^^ Suc (unat MAX_DIGEST_RETRY_CNT)) (Token (ctx_id ctx), hw1)),
           Some op)"
    unfolding run req_def [symmetric] sent cS(4)
    by (simp add: loop fail_with_cookie_slot [OF s(1)] cR_def MAX_DIGEST_RETRY_CNT_def
        case_prod_beta del: funpow.simps)
  have same: "cstatus cR = cstatus ctx"
    using s(2) by (simp add: cR_def cS(1) list_update_same)
  have "pool_ok cR"
    using ok cS same s(1) by (simp add: pool_ok_def cR_def)
  moreover have "unat s < 64"
    using s(1) by (simp add: word_less_nat_alt)
  ultimately obtain s' where "get_digest_cookie cR =
      Inr (Some s', cR\<lparr>cstatus := (cstatus cR)[unat s' := 1], cidx := s'\<rparr>)"
    using get_digest_cookie_some [of cR "unat s"] s(2) same by auto
  with result same show ?thesis
    unfolding hw1_def by blast
qed

lemma silent_transport_counts:
  "(recv_step silent_transport ^^ k) (r, n) = (r, n + k)"
  by (induction k arbitrary: n) (simp_all add: recv_step_def silent_transport_def)

theorem sync_timeout_releases_slot_witness:
  "\<exists>c' s c''.
     wcrypto_do_digest example_codes silent_transport (Some async_session) 0
       (Some (segment 10 False)) 0 =
         Inr (- 110, Some c', 20000001, Some (segment 10 False)) \<and>
     cstatus c' = cstatus async_session \<and>
     get_digest_cookie c' = Inr (Some s, c'')"
proof -
  have K: "WD_SUCCESS example_codes = 0"
    by (simp add: example_codes_def)
  have f: "0 < free_slots (cstatus async_session)"
    by (simp add: async_session_ok(2))
  have send: "\<forall>hw req. fst (wd_send silent_transport hw req) = 0"
    and silent: "\<forall>hw resp. fst (wd_recv silent_transport hw resp) = 0"
    by (simp_all add: silent_transport_def)
  have hw: "snd (wd_send silent_transport (0 :: nat) req) = 0" for req
    by (simp add: silent_transport_def)
  from sync_timeout_releases_slot [OF K async_session_ok(1) f send silent,
      of 0 "segment 10 False"]
  show ?thesis
    by (simp add: hw silent_transport_counts MAX_DIGEST_RETRY_CNT_def example_codes_def
        del: funpow.simps)
qed

subsection \<open>Polling\<close>

lemma poll_ret_Suc: "poll_ret T hw (Suc j) = poll_ret T (poll_step T hw) j"
  by (simp add: poll_ret_def funpow_swap1)

lemma poll_resp_Suc: "poll_resp T hw (Suc j) = poll_resp T (poll_step T hw) j"
  by (simp add: poll_resp_def funpow_swap1)

lemma recv_error_negative:
  assumes "0 <s WD_HW_ERR K" "recv_error K ret resp"
  shows "ret <s 0"
  using assms sint_neg_code(2) [of "WD_HW_ERR K"] by (auto simp: recv_error_def)

lemma complete_reply_passes:
  assumes "complete_reply K heap ret resp = Inr (heap1, call)"
  shows "reply_passed K ret resp call"
  using assms
  by (auto simp: complete_reply_def reply_passed_def Let_def
      split: resp_ptr.splits option.splits if_splits prod.splits)

lemma poll_rounds:
  assumes "digest_poll_loop K T heap hw num count calls = Inr (ret, heap', hw', calls')"
  shows "\<exists>k extra.
           calls' = calls @ extra \<and> 1 \<le> k \<and> k \<le> Suc (unat (num - 1)) \<and>
           hw' = (poll_step T ^^ k) hw \<and>
           (\<forall>j < k - 1. poll_ret T hw j \<noteq> 0 \<and>
                         \<not> recv_error K (poll_ret T hw j) (poll_resp T hw j)) \<and>
           (poll_ret T hw (k - 1) = 0 \<and> length extra = k - 1 \<and> ret = count + of_nat (k - 1) \<or>
            poll_ret T hw (k - 1) \<noteq> 0 \<and>
              \<not> recv_error K (poll_ret T hw (k - 1)) (poll_resp T hw (k - 1)) \<and>
              k = Suc (unat (num - 1)) \<and> length extra = k \<and> ret = count + of_nat k \<or>
            poll_ret T hw (k - 1) \<noteq> 0 \<and>
              recv_error K (poll_ret T hw (k - 1)) (poll_resp T hw (k - 1)) \<and>
              length extra = k - 1 \<and> ret = poll_ret T hw (k - 1)) \<and>
           (\<forall>j < length extra.
              reply_passed K (poll_ret T hw j) (poll_resp T hw j) (extra ! j))"
  using assms
proof (induction n \<equiv> "unat (num - 1)" arbitrary: num heap hw count calls rule: less_induct)
  case less
  obtain r resp hw1 where recv: "wd_recv T hw (Token 0) = (r, resp, hw1)"
    by (cases "wd_recv T hw (Token 0)")
  then have first: "poll_ret T hw 0 = r" "poll_resp T hw 0 = resp"
    and step: "poll_step T hw = hw1"
    by (simp_all add: poll_ret_def poll_resp_def poll_step_def)
  note run = less.prems [unfolded digest_poll_loop.simps [of K T heap hw num count calls] recv]
  show ?case
  proof (cases "r = 0 \<or> recv_error K r resp")
    case True
    with run have "calls' = calls" "hw' = hw1"
      "r = 0 \<and> ret = count \<or> r \<noteq> 0 \<and> recv_error K r resp \<and> ret = r"
      by (auto simp: recv_error_def split: if_splits)
    then show ?thesis
      using first step by (intro exI [of _ 1] exI [of _ "[]"]) auto
  next
    case False
    then have r: "r \<noteq> 0" "\<not> recv_error K r resp"
      by simp_all
    with run obtain heap1 call where compl: "complete_reply K heap r resp = Inr (heap1, call)"
      by (auto simp: recv_error_def split: sum.splits if_splits)
    note passed = complete_reply_passes [OF compl]
    show ?thesis
    proof (cases "num - 1 = 0")
      case True
      with run r compl have "calls' = calls @ [call]" "hw' = hw1" "ret = count + 1"
        by (auto simp: recv_error_def split: if_splits)
      then show ?thesis
        using first step r True passed by (intro exI [of _ 1] exI [of _ "[call]"]) auto
    next
      case again: False
      with run r compl
      have rec: "digest_poll_loop K T heap1 hw1 (num - 1) (count + 1) (calls @ [call]) =
                   Inr (ret, heap', hw', calls')"
        by (auto simp: recv_error_def split: if_splits)
      have dec: "unat (num - 1 - 1) < unat (num - 1)" "Suc (unat (num - 1 - 1)) = unat (num - 1)"
        using again unat_minus_one [of "num - 1"] by (simp_all add: unat_gt_0)
      from less.hyps [OF dec(1) rec] obtain k extra where
        k: "calls' = (calls @ [call]) @ extra" "1 \<le> k" "k \<le> Suc (unat (num - 1 - 1))"
          "hw' = (poll_step T ^^ k) hw1"
          "\<forall>j < k - 1. poll_ret T hw1 j \<noteq> 0 \<and>
                        \<not> recv_error K (poll_ret T hw1 j) (poll_resp T hw1 j)"
          "\<forall>j < length extra. reply_passed K (poll_ret T hw1 j) (poll_resp T hw1 j) (extra ! j)"
        and how:
          "poll_ret T hw1 (k - 1) = 0 \<and> length extra = k - 1 \<and>
             ret = count + 1 + of_nat (k - 1) \<or>
           poll_ret T hw1 (k - 1) \<noteq> 0 \<and>
             \<not> recv_error K (poll_ret T hw1 (k - 1)) (poll_resp T hw1 (k - 1)) \<and>
             k = Suc (unat (num - 1 - 1)) \<and> length extra = k \<and> ret = count + 1 + of_nat k \<or>
           poll_ret T hw1 (k - 1) \<noteq> 0 \<and>
             recv_error K (poll_ret T hw1 (k - 1)) (poll_resp T hw1 (k - 1)) \<and>
             length extra = k - 1 \<and> ret = poll_ret T hw1 (k - 1)"
        by blast
      have shift: "poll_ret T hw (Suc j) = poll_ret T hw1 j"
        "poll_resp T hw (Suc j) = poll_resp T hw1 j" for j
        using poll_ret_Suc [of T hw j] poll_resp_Suc [of T hw j] step by simp_all
      have last: "poll_ret T hw (Suc k - 1) = poll_ret T hw1 (k - 1)"
        "poll_resp T hw (Suc k - 1) = poll_resp T hw1 (k - 1)"
        using k(2) shift [of "k - 1"] by simp_all
      have before: "\<forall>j < Suc k - 1. poll_ret T hw j \<noteq> 0 \<and>
                      \<not> recv_error K (poll_ret T hw j) (poll_resp T hw j)"
      proof (intro allI impI)
        fix j assume j: "j < Suc k - 1"
        show "poll_ret T hw j \<noteq> 0 \<and> \<not> recv_error K (poll_ret T hw j) (poll_resp T hw j)"
        proof (cases j)
          case 0
          then show ?thesis using first r by simp
        next
          case (Suc j')
          then show ?thesis
            using j k(5) shift [of j'] by auto
        qed
      qed
      have each: "\<forall>j < length (call # extra).
          reply_passed K (poll_ret T hw j) (poll_resp T hw j) ((call # extra) ! j)"
      proof (intro allI impI)
        fix j assume j: "j < length (call # extra)"
        show "reply_passed K (poll_ret T hw j) (poll_resp T hw j) ((call # extra) ! j)"
        proof (cases j)
          case 0
          then show ?thesis using first passed by simp
        next
          case (Suc j')
          then show ?thesis
            using j k(6) shift [of j'] by auto
        qed
      qed
      have cnt: "count + 1 + of_nat (k - 1) = count + of_nat (Suc k - 1)"
        using k(2) by (cases k) simp_all
      have "hw' = (poll_step T ^^ Suc k) hw"
        using k(4) step by (simp add: funpow_swap1)
      moreover have "calls' = calls @ (call # extra)"
        using k(1) by simp
      moreover have "1 \<le> Suc k" "Suc k \<le> Suc (unat (num - 1))"
        using k(3) dec(2) by simp_all
      moreover have
        "poll_ret T hw (Suc k - 1) = 0 \<and> length (call # extra) = Suc k - 1 \<and>
           ret = count + of_nat (Suc k - 1) \<or>
         poll_ret T hw (Suc k - 1) \<noteq> 0 \<and>
           \<not> recv_error K (poll_ret T hw (Suc k - 1)) (poll_resp T hw (Suc k - 1)) \<and>
           Suc k = Suc (unat (num - 1)) \<and>
           length (call # extra) = Suc k \<and> ret = count + of_nat (Suc k) \<or>
         poll_ret T hw (Suc k - 1) \<noteq> 0 \<and>
           recv_error K (poll_ret T hw (Suc k - 1)) (poll_resp T hw (Suc k - 1)) \<and>
           length (call # extra) = Suc k - 1 \<and> ret = poll_ret T hw (Suc k - 1)"
        using how k(2) dec(2) unfolding last cnt [symmetric] by auto
      ultimately show ?thesis
        using before each by (intro exI [of _ "Suc k"] exI [of _ "call # extra"]) blast
    qed
  qed
qed

lemma cleared_from_refl: "cleared_from heap heap"
  by (auto simp: cleared_from_def split: option.splits)

lemma cleared_from_trans:
  "cleared_from h1 h2 \<Longrightarrow> cleared_from h2 h3 \<Longrightarrow> cleared_from h1 h3"
  unfolding cleared_from_def
proof (intro allI)
  fix a
  assume 1: "\<forall>a. case h1 a of None \<Rightarrow> h2 a = None
           | Some c \<Rightarrow> (case h2 a of None \<Rightarrow> False
                | Some c' \<Rightarrow> cookies c' = cookies c \<and> ctx_setup c' = ctx_setup c \<and>
                    length (cstatus c') = length (cstatus c) \<and>
                    (\<forall>j. cstatus c ! j = 0 \<longrightarrow> cstatus c' ! j = 0))"
    and 2: "\<forall>a. case h2 a of None \<Rightarrow> h3 a = None
           | Some c \<Rightarrow> (case h3 a of None \<Rightarrow> False
                | Some c' \<Rightarrow> cookies c' = cookies c \<and> ctx_setup c' = ctx_setup c \<and>
                    length (cstatus c') = length (cstatus c) \<and>
                    (\<forall>j. cstatus c ! j = 0 \<longrightarrow> cstatus c' ! j = 0))"
  from 1 [rule_format, of a] 2 [rule_format, of a]
  show "case h1 a of None \<Rightarrow> h3 a = None
           | Some c \<Rightarrow> (case h3 a of None \<Rightarrow> False
                | Some c' \<Rightarrow> cookies c' = cookies c \<and> ctx_setup c' = ctx_setup c \<and>
                    length (cstatus c') = length (cstatus c) \<and>
                    (\<forall>j. cstatus c ! j = 0 \<longrightarrow> cstatus c' ! j = 0))"
    by (auto split: option.splits)
qed

lemma cleared_from_deliverable:
  assumes "cleared_from heap heap'"
  shows "deliverable K heap' x = deliverable K heap x"
    and "expected_call K heap' x = expected_call K heap x"
proof -
  have "deliverable K heap' x = deliverable K heap x \<and>
        expected_call K heap' x = expected_call K heap x"
  proof (cases "snd x")
    case (Token t)
    then show ?thesis by (simp add: deliverable_def expected_call_def)
  next
    case (Reply r)
    from assms [unfolded cleared_from_def, rule_format, of "fst (m_usr_data r)"] Reply
    show ?thesis
      by (auto simp: deliverable_def expected_call_def cookie_at_def split: option.splits)
  qed
  then show "deliverable K heap' x = deliverable K heap x"
    and "expected_call K heap' x = expected_call K heap x"
    by simp_all
qed

lemma cleared_from_released:
  assumes "cleared_from heap heap'" "slot_released heap x"
  shows "slot_released heap' x"
proof (cases "snd x")
  case (Token t)
  with assms(2) show ?thesis by (simp add: slot_released_def)
next
  case (Reply r)
  from assms(1) [unfolded cleared_from_def, rule_format, of "fst (m_usr_data r)"] Reply assms(2)
  show ?thesis
    by (auto simp: slot_released_def split: option.splits)
qed

lemma complete_reply_deliverable:
  assumes hw: "0 <s WD_HW_ERR K" and d: "deliverable K heap (ret, resp)"
  shows "\<exists>heap1 call.
           complete_reply K heap ret resp = Inr (heap1, call) \<and>
           expected_call K heap (ret, resp) = Some call \<and>
           cleared_from heap heap1 \<and> slot_released heap1 (ret, resp) \<and>
           (ret = - WD_HW_ERR K \<longrightarrow> m_result (fst (snd call)) = WD_HW_ERR K) \<and>
           ret \<noteq> 0 \<and> \<not> (ret = - WD_HW_ERR K \<and> resp = Token 0) \<and>
           \<not> (ret \<noteq> - WD_HW_ERR K \<and> ret <s 0)"
proof -
  from d obtain r where resp: "resp = Reply r"
    by (cases resp) (simp_all add: deliverable_def)
  obtain a i where ai: "m_usr_data r = (a, i)"
    by (cases "m_usr_data r")
  from d resp ai obtain ctx where ctx: "heap a = Some ctx"
    and ret: "0 <s ret \<or> ret = - WD_HW_ERR K"
    and i: "i < 64" and len: "length (cookies ctx) = 64" "length (cstatus ctx) = 64"
    and owner: "t_ctx (wcrypto_tag (c_tag (cookie_at ctx i))) = a"
    and cb: "s_cb (ctx_setup ctx) \<noteq> 0"
    by (auto simp: deliverable_def split: option.splits)
  have ui: "unat i < 64" "0 \<le> sint i" "nat (sint i) = unat i"
    using i sint_slot [OF i] by (simp_all add: word_less_nat_alt)
  define r' where "r' = (if ret = - WD_HW_ERR K then r\<lparr>m_result := WD_HW_ERR K\<rparr> else r)"
  have ai': "m_usr_data r' = (a, i)"
    by (simp add: r'_def ai)
  define ctx' where "ctx' = ctx\<lparr>cstatus := (cstatus ctx)[unat i := 0]\<rparr>"
  define call where
    "call = (s_cb (ctx_setup ctx), r', t_tag (wcrypto_tag (c_tag (cookie_at ctx i))))"
  have "complete_reply K heap ret resp = Inr (heap(a \<mapsto> ctx'), call)"
    using ctx ui len owner cb ai'
    by (simp add: complete_reply_def resp r'_def [symmetric] Let_def
        put_digest_cookie_slot [OF i] ctx'_def call_def)
  moreover have "expected_call K heap (ret, resp) = Some call"
    using ctx by (simp add: expected_call_def resp ai call_def r'_def)
  moreover have "cleared_from heap (heap(a \<mapsto> ctx'))"
    using ctx ui len
    by (auto simp: cleared_from_def ctx'_def nth_list_update split: option.splits)
  moreover have "slot_released (heap(a \<mapsto> ctx')) (ret, resp)"
    using ui len by (simp add: slot_released_def resp ai ctx'_def)
  moreover have "ret = - WD_HW_ERR K \<longrightarrow> m_result (fst (snd call)) = WD_HW_ERR K"
    by (simp add: call_def r'_def)
  moreover have "ret \<noteq> 0" "\<not> (ret \<noteq> - WD_HW_ERR K \<and> ret <s 0)"
    using ret sint_neg_code [OF hw] by (auto simp: word_sless_alt)
  ultimately show ?thesis
    using resp by auto
qed

lemma poll_delivers:
  assumes hw: "0 <s WD_HW_ERR K"
  shows "\<forall>x \<in> set rs. deliverable K heap x \<Longrightarrow> length rs \<le> Suc (unat (num - 1)) \<Longrightarrow>
         \<exists>heap' extra.
           digest_poll_loop K scripted heap rs num count calls =
             Inr (count + of_nat (length rs), heap', [], calls @ extra) \<and>
           map Some extra = map (expected_call K heap) rs \<and>
           cleared_from heap heap' \<and>
           (\<forall>x \<in> set rs. slot_released heap' x) \<and>
           (\<forall>j < length rs. fst (rs ! j) = - WD_HW_ERR K \<longrightarrow>
                m_result (fst (snd (extra ! j))) = WD_HW_ERR K)"
proof (induction rs arbitrary: heap num count calls)
  case Nil
  have "wd_recv scripted [] (Token 0) = (0, Token 0, [])"
    by (simp add: scripted_def)
  then show ?case
    by (subst digest_poll_loop.simps) (simp add: cleared_from_refl)
next
  case (Cons x rs)
  obtain ret resp where x: "x = (ret, resp)"
    by (cases x)
  from Cons.prems(1) have d: "deliverable K heap (ret, resp)"
    by (simp add: x)
  from complete_reply_deliverable [OF hw d] obtain heap1 call where
    c: "complete_reply K heap ret resp = Inr (heap1, call)"
      "expected_call K heap (ret, resp) = Some call"
      "cleared_from heap heap1" "slot_released heap1 (ret, resp)"
      "ret = - WD_HW_ERR K \<longrightarrow> m_result (fst (snd call)) = WD_HW_ERR K"
    and go: "ret \<noteq> 0" "\<not> (ret = - WD_HW_ERR K \<and> resp = Token 0)"
      "\<not> (ret \<noteq> - WD_HW_ERR K \<and> ret <s 0)"
    by blast
  have round: "digest_poll_loop K scripted heap (x # rs) num count calls =
      (if num - 1 \<noteq> 0
       then digest_poll_loop K scripted heap1 rs (num - 1) (count + 1) (calls @ [call])
       else Inr (count + 1, heap1, rs, calls @ [call]))"
  proof -
    have "wd_recv scripted (x # rs) (Token 0) = (ret, resp, rs)"
      by (simp add: scripted_def x)
    then show ?thesis
      using c(1) go by (subst digest_poll_loop.simps) auto
  qed
  have rest: "\<forall>y \<in> set rs. deliverable K heap1 y"
    using Cons.prems(1) cleared_from_deliverable(1) [OF c(3)] by simp
  have ex: "map (expected_call K heap1) rs = map (expected_call K heap) rs"
    using cleared_from_deliverable(2) [OF c(3)] by simp
  show ?case
  proof (cases "num - 1 = 0")
    case True
    with Cons.prems(2) have "rs = []"
      by simp
    with True round c show ?thesis
      by (intro exI [of _ heap1] exI [of _ "[call]"]) (simp add: x)
  next
    case False
    then have "Suc (unat (num - 1 - 1)) = unat (num - 1)"
      using unat_minus_one [of "num - 1"] by (simp add: unat_gt_0)
    with Cons.prems(2) have "length rs \<le> Suc (unat (num - 1 - 1))"
      by simp
    from Cons.IH [OF rest this, of "count + 1" "calls @ [call]"] obtain heap' extra where
      run: "digest_poll_loop K scripted heap1 rs (num - 1) (count + 1) (calls @ [call]) =
              Inr (count + 1 + of_nat (length rs), heap', [], (calls @ [call]) @ extra)"
      and props: "map Some extra = map (expected_call K heap1) rs"
        "cleared_from heap1 heap'" "\<forall>y \<in> set rs. slot_released heap' y"
        "\<forall>j < length rs. fst (rs ! j) = - WD_HW_ERR K \<longrightarrow>
             m_result (fst (snd (extra ! j))) = WD_HW_ERR K"
      by blast
    have "digest_poll_loop K scripted heap (x # rs) num count calls =
            Inr (count + of_nat (length (x # rs)), heap', [], calls @ (call # extra))"
      using round False run by (simp add: add.assoc add.commute)
    moreover have "map Some (call # extra) = map (expected_call K heap) (x # rs)"
      using props(1) ex c(2) by (simp add: x)
    moreover have "cleared_from heap heap'"
      using cleared_from_trans [OF c(3) props(2)] .
    moreover have "\<forall>y \<in> set (x # rs). slot_released heap' y"
      using props(3) cleared_from_released [OF props(2) c(4)] by (simp add: x)
    moreover have "\<forall>j < length (x # rs). fst ((x # rs) ! j) = - WD_HW_ERR K \<longrightarrow>
        m_result (fst (snd ((call # extra) ! j))) = WD_HW_ERR K"
    proof (intro allI impI)
      fix j assume "j < length (x # rs)" "fst ((x # rs) ! j) = - WD_HW_ERR K"
      then show "m_result (fst (snd ((call # extra) ! j))) = WD_HW_ERR K"
        using c(5) props(4) by (cases j) (simp_all add: x)
    qed
    ultimately show ?thesis
      by blast
  qed
qed


lemma polled_session_facts:
  "length (cookies polled_session) = 64" "length (cstatus polled_session) = 64"
  "s_cb (ctx_setup polled_session) = 9"
  "i < 64 \<Longrightarrow> cookies polled_session ! i =
     init_cookie example_codes callback_setup 4096 1 i zero_cookie"
  by (simp_all add: polled_session_def wcrypto_create_digest_ctx_def empty_queue_def
      callback_setup_def plain_setup_def null_ops_def Let_def WD_DIGEST_MAX_CTX_def
      word_sless_alt zero_ctx_def WD_DIGEST_CTX_MSG_NUM_def)

lemma reply_of_facts:
  assumes "i < 64"
  shows "m_usr_data (reply_of (of_nat i)) = (4096, of_nat i)"
    and "m_result (reply_of (of_nat i)) = 0"
    and "deliverable example_codes polled_heap (1, Reply (reply_of (of_nat i)))"
    and "deliverable example_codes polled_heap (- 62, Reply (reply_of (of_nat i)))"
    and "expected_call example_codes polled_heap (1, Reply (reply_of (of_nat i))) =
           Some (9, reply_of (of_nat i), 0)"
    and "expected_call example_codes polled_heap (- 62, Reply (reply_of (of_nat i))) =
           Some (9, (reply_of (of_nat i))\<lparr>m_result := 62\<rparr>, 0)"
proof -
  have w: "(of_nat i :: 32 word) < 64" "nat (sint (of_nat i :: 32 word)) = i"
    using assms by (simp_all add: word_less_nat_alt unat_of_nat_small sint_of_nat_small)
  have c: "cookie_at polled_session (of_nat i) =
             init_cookie example_codes callback_setup 4096 1 i zero_cookie"
    using assms by (simp add: cookie_at_def w polled_session_facts)
  show u: "m_usr_data (reply_of (of_nat i)) = (4096, of_nat i)"
    and r: "m_result (reply_of (of_nat i)) = 0"
    by (simp_all add: reply_of_def c init_cookie_def zero_cookie_def)
  have t: "c_tag (cookie_at polled_session (of_nat i)) =
             \<lparr>wcrypto_tag = \<lparr>t_ctx = 4096, t_ctx_id = 1, t_tag = 0\<rparr>, long_data_len = 0\<rparr>"
    by (simp add: c init_cookie_def zero_cookie_def)
  show "deliverable example_codes polled_heap (1, Reply (reply_of (of_nat i)))"
    and "deliverable example_codes polled_heap (- 62, Reply (reply_of (of_nat i)))"
    using w(1)
    by (simp_all add: deliverable_def u polled_heap_def polled_session_facts t example_codes_def
        word_sless_alt)
  show "expected_call example_codes polled_heap (1, Reply (reply_of (of_nat i))) =
           Some (9, reply_of (of_nat i), 0)"
    and "expected_call example_codes polled_heap (- 62, Reply (reply_of (of_nat i))) =
           Some (9, (reply_of (of_nat i))\<lparr>m_result := 62\<rparr>, 0)"
    by (simp_all add: expected_call_def u polled_heap_def polled_session_facts t example_codes_def)
qed


lemma three_replies_polled:
  assumes "3 \<le> Suc (unat (num - 1))"
  shows "\<exists>heap' calls.
           wcrypto_digest_poll example_codes scripted polled_heap three_replies num =
             Inr (3, heap', [], calls) \<and> length calls = 3"
proof -
  have hw: "0 <s WD_HW_ERR example_codes"
    by (simp add: example_codes_def word_sless_alt)
  have d: "\<forall>x \<in> set three_replies. deliverable example_codes polled_heap x"
    using reply_of_facts(3) [of 0] reply_of_facts(3) [of 1] reply_of_facts(3) [of 2]
    by (simp add: three_replies_def)
  have n: "length three_replies \<le> Suc (unat (num - 1))"
    using assms by (simp add: three_replies_def)
  from poll_delivers [OF hw d n, of 0 "[]"] obtain heap' extra where
    "digest_poll_loop example_codes scripted polled_heap three_replies num 0 [] =
       Inr (0 + of_nat (length three_replies), heap', [], [] @ extra)"
    "map Some extra = map (expected_call example_codes polled_heap) three_replies"
    by blast
  moreover from this(2) have "length extra = length three_replies"
    using length_map by metis
  ultimately show ?thesis
    by (simp add: wcrypto_digest_poll_def three_replies_def)
qed

text \<open>
  C7, as stated, fails for a bound of 0: with three completions ready, the
  poller called with 0 takes all three from the queue, makes three callbacks
  and returns 3.
\<close>

theorem poll_with_max_count_zero_pulls_three:
  "poll_result (wcrypto_digest_poll example_codes scripted polled_heap three_replies 0) =
     Some (3, [], 3)"
proof -
  have "3 \<le> Suc (unat (0 - 1 :: 32 word))"
    by (simp add: unsigned_minus_1_eq_mask mask_eq_exp_minus_1)
  from three_replies_polled [OF this] show ?thesis
    by (auto simp: poll_result_def)
qed

text \<open>
  C7, amended: when the poller returns, it has called \<^verbatim>\<open>wd_recv\<close> \<open>k\<close> times in a
  row, with \<open>k\<close> at most the bound when the bound is not 0 (and at most
  \<open>2 ^ 32\<close> when it is 0, since the counter of the do-while loop wraps around).
  Every call before the last returned a completion: a value that is not 0 and
  not a transport error. Exactly one of three cases holds for the last call.
  It returned 0: the poller made \<open>k - 1\<close> callbacks and returns that number,
  the count of completions processed so far, which may be 0. It returned a
  completion and the bound is exhausted: the poller made \<open>k\<close> callbacks and
  returns that number. It returned a transport error: the poller made \<open>k - 1\<close>
  callbacks and returns the error in place of the count, a negative value when
  the hardware error code is positive. In each case the callback number \<open>j\<close> was
  passed the reply of call number \<open>j\<close>.
\<close>

theorem poll_pulls_at_most_max_count_when_positive:
  assumes "wcrypto_digest_poll K T heap hw num = Inr (ret, heap', hw', calls)"
  shows "\<exists>k. 1 \<le> k \<and> k \<le> Suc (unat (num - 1)) \<and> (num \<noteq> 0 \<longrightarrow> k \<le> unat num) \<and>
             hw' = (poll_step T ^^ k) hw \<and>
             (\<forall>j < k - 1. poll_ret T hw j \<noteq> 0 \<and>
                           \<not> recv_error K (poll_ret T hw j) (poll_resp T hw j)) \<and>
             (poll_ret T hw (k - 1) = 0 \<and> length calls = k - 1 \<and> ret = of_nat (length calls) \<or>
              poll_ret T hw (k - 1) \<noteq> 0 \<and>
                \<not> recv_error K (poll_ret T hw (k - 1)) (poll_resp T hw (k - 1)) \<and>
                k = Suc (unat (num - 1)) \<and> length calls = k \<and> ret = of_nat (length calls) \<or>
              poll_ret T hw (k - 1) \<noteq> 0 \<and>
                recv_error K (poll_ret T hw (k - 1)) (poll_resp T hw (k - 1)) \<and>
                length calls = k - 1 \<and> ret = poll_ret T hw (k - 1) \<and>
                (0 <s WD_HW_ERR K \<longrightarrow> ret <s 0)) \<and>
             (\<forall>j < length calls.
                reply_passed K (poll_ret T hw j) (poll_resp T hw j) (calls ! j))"
proof -
  from poll_rounds [OF assms [unfolded wcrypto_digest_poll_def]] obtain k extra where
    k: "calls = [] @ extra" "1 \<le> k" "k \<le> Suc (unat (num - 1))"
      "hw' = (poll_step T ^^ k) hw"
      "\<forall>j < k - 1. poll_ret T hw j \<noteq> 0 \<and>
                    \<not> recv_error K (poll_ret T hw j) (poll_resp T hw j)"
      "\<forall>j < length extra. reply_passed K (poll_ret T hw j) (poll_resp T hw j) (extra ! j)"
    and how:
      "poll_ret T hw (k - 1) = 0 \<and> length extra = k - 1 \<and> ret = 0 + of_nat (k - 1) \<or>
       poll_ret T hw (k - 1) \<noteq> 0 \<and>
         \<not> recv_error K (poll_ret T hw (k - 1)) (poll_resp T hw (k - 1)) \<and>
         k = Suc (unat (num - 1)) \<and> length extra = k \<and> ret = 0 + of_nat k \<or>
       poll_ret T hw (k - 1) \<noteq> 0 \<and>
         recv_error K (poll_ret T hw (k - 1)) (poll_resp T hw (k - 1)) \<and>
         length extra = k - 1 \<and> ret = poll_ret T hw (k - 1)"
    by blast
  have "Suc (unat (num - 1)) = unat num" if "num \<noteq> 0"
    using that unat_minus_one [of num] by (simp add: unat_gt_0)
  with k(3) have "num \<noteq> 0 \<longrightarrow> k \<le> unat num"
    by auto
  moreover have "0 <s WD_HW_ERR K \<longrightarrow> ret <s 0"
    if "recv_error K (poll_ret T hw (k - 1)) (poll_resp T hw (k - 1))"
      "ret = poll_ret T hw (k - 1)"
    using that recv_error_negative by auto
  ultimately show ?thesis
    using k how by (intro exI [of _ k]) auto
qed

lemma failing_queue_polled:
  "\<exists>heap' call.
     wcrypto_digest_poll example_codes scripted polled_heap failing_queue 5 =
       Inr (- 5, heap', [], [call])"
proof -
  have hw: "0 <s WD_HW_ERR example_codes"
    by (simp add: example_codes_def word_sless_alt)
  have d: "deliverable example_codes polled_heap (1, Reply (reply_of 0))"
    using reply_of_facts(3) [of 0] by simp
  from complete_reply_deliverable [OF hw d] obtain heap1 call where
    c: "complete_reply example_codes polled_heap 1 (Reply (reply_of 0)) = Inr (heap1, call)"
    by blast
  have r1: "wd_recv scripted failing_queue (Token 0) = (1, Reply (reply_of 0), [(- 5, Token 0)])"
    and r2: "wd_recv scripted [(- 5, Token 0)] (Token 0) = (- 5, Token 0, [])"
    by (simp_all add: scripted_def failing_queue_def)
  have e: "WD_HW_ERR example_codes = 62"
    by (simp add: example_codes_def)
  have "digest_poll_loop example_codes scripted heap1 [(- 5, Token 0)] 4 1 [call] =
          Inr (- 5, heap1, [], [call])"
    by (subst digest_poll_loop.simps) (simp add: r2 e word_sless_alt)
  then have "digest_poll_loop example_codes scripted polled_heap failing_queue 5 0 [] =
          Inr (- 5, heap1, [], [call])"
    by (subst digest_poll_loop.simps) (simp add: r1 c e word_sless_alt)
  then show ?thesis
    unfolding wcrypto_digest_poll_def by (intro exI [of _ heap1] exI [of _ call])
qed

theorem poll_pulls_at_most_max_count_when_positive_witness:
  "(\<exists>heap' calls.
      wcrypto_digest_poll example_codes scripted polled_heap three_replies 5 =
        Inr (3, heap', [], calls) \<and>
      length calls = 3 \<and> poll_ret scripted three_replies 3 = 0 \<and>
      [] = (poll_step scripted ^^ 4) three_replies \<and>
      (\<forall>j < 3. reply_passed example_codes (poll_ret scripted three_replies j)
                  (poll_resp scripted three_replies j) (calls ! j))) \<and>
   (\<exists>heap' calls.
      wcrypto_digest_poll example_codes scripted polled_heap failing_queue 5 =
        Inr (- 5, heap', [], calls) \<and>
      length calls = 1 \<and> (- 5 :: 32 word) <s 0 \<and>
      recv_error example_codes (poll_ret scripted failing_queue 1)
        (poll_resp scripted failing_queue 1))"
proof -
  have hw: "0 <s WD_HW_ERR example_codes"
    by (simp add: example_codes_def word_sless_alt)
  have "3 \<le> Suc (unat (5 - 1 :: 32 word))"
    by simp
  from three_replies_polled [OF this] obtain heap' calls where
    run: "wcrypto_digest_poll example_codes scripted polled_heap three_replies 5 =
            Inr (3, heap', [], calls)" and len: "length calls = 3"
    by blast
  have end3: "poll_ret scripted three_replies 3 = 0"
    by (simp add: poll_ret_def poll_step_def scripted_def three_replies_def eval_nat_numeral)
  from poll_pulls_at_most_max_count_when_positive [OF run] len obtain k where
    k: "[] = (poll_step scripted ^^ k) three_replies"
      "poll_ret scripted three_replies (k - 1) = 0 \<and> 3 = k - 1 \<or>
       poll_ret scripted three_replies (k - 1) \<noteq> 0 \<and> k = Suc (unat (5 - 1 :: 32 word)) \<and> 3 = k \<or>
       poll_ret scripted three_replies (k - 1) \<noteq> 0 \<and> 3 = k - 1"
      "\<forall>j < 3. reply_passed example_codes (poll_ret scripted three_replies j)
                  (poll_resp scripted three_replies j) (calls ! j)"
    by auto
  from k(2) end3 have "k = 4"
    by auto
  with k run len end3 have first:
    "\<exists>heap' calls.
      wcrypto_digest_poll example_codes scripted polled_heap three_replies 5 =
        Inr (3, heap', [], calls) \<and>
      length calls = 3 \<and> poll_ret scripted three_replies 3 = 0 \<and>
      [] = (poll_step scripted ^^ 4) three_replies \<and>
      (\<forall>j < 3. reply_passed example_codes (poll_ret scripted three_replies j)
                  (poll_resp scripted three_replies j) (calls ! j))"
    by auto
  from failing_queue_polled obtain heap2 call where
    run2: "wcrypto_digest_poll example_codes scripted polled_heap failing_queue 5 =
             Inr (- 5, heap2, [], [call])"
    by blast
  have at0: "poll_ret scripted failing_queue 0 = 1"
    and at1: "poll_ret scripted failing_queue 1 = - 5"
    by (simp_all add: poll_ret_def poll_step_def scripted_def failing_queue_def)
  from poll_pulls_at_most_max_count_when_positive [OF run2] hw obtain k2 where
    k2: "1 \<le> k2"
      "poll_ret scripted failing_queue (k2 - 1) = 0 \<and> 1 = k2 - 1 \<or>
       poll_ret scripted failing_queue (k2 - 1) \<noteq> 0 \<and> k2 = Suc (unat (5 - 1 :: 32 word)) \<and>
         1 = k2 \<or>
       recv_error example_codes (poll_ret scripted failing_queue (k2 - 1))
         (poll_resp scripted failing_queue (k2 - 1)) \<and> 1 = k2 - 1 \<and> (- 5 :: 32 word) <s 0"
    by auto
  from k2 at1 have "recv_error example_codes (poll_ret scripted failing_queue 1)
         (poll_resp scripted failing_queue 1) \<and> (- 5 :: 32 word) <s 0"
    by auto
  with run2 have "\<exists>heap' calls.
      wcrypto_digest_poll example_codes scripted polled_heap failing_queue 5 =
        Inr (- 5, heap', [], calls) \<and>
      length calls = 1 \<and> (- 5 :: 32 word) <s 0 \<and>
      recv_error example_codes (poll_ret scripted failing_queue 1)
        (poll_resp scripted failing_queue 1)"
    by auto
  with first show ?thesis
    by blast
qed

end
